theory Spec2Isabelle
  imports Main
begin

section \<open>Python values shared by the orchestrator and the watchers\<close>

text \<open>
  A Python \<open>str\<close> is a sequence of Unicode code points; a code point is a natural number.
  Literals of the source are written \<open>u ''...''\<close>; code points beyond ASCII (the emoji of
  the dashboard) are written as numbers.
\<close>

type_synonym pystr = "nat list"

definition u :: "string \<Rightarrow> pystr" where
  "u s = map of_char s"

definition nl :: pystr where
  "nl = [10]"

text \<open>\<open>str(n)\<close> and \<open>f"{n}"\<close> for a non-negative integer: its decimal digits.\<close>

fun show_nat :: "nat \<Rightarrow> pystr" where
  "show_nat n = (if n < 10 then [48 + n] else show_nat (n div 10) @ [48 + n mod 10])"

declare show_nat.simps [simp del]

text \<open>\<open>sep.join(xs)\<close>.\<close>

fun join :: "pystr \<Rightarrow> pystr list \<Rightarrow> pystr" where
  "join sep [] = []"
| "join sep [x] = x"
| "join sep (x # y # ys) = x @ sep @ join sep (y # ys)"

text \<open>
  \<open>str.isspace\<close> for one code point (CPython's table of Unicode whitespace), and
  \<open>str.strip()\<close>, which removes whitespace at both ends.
\<close>

definition isspace :: "nat \<Rightarrow> bool" where
  "isspace c = (c \<in> {9, 10, 11, 12, 13, 28, 29, 30, 31, 32, 133, 160, 5760,
                        8192, 8193, 8194, 8195, 8196, 8197, 8198, 8199, 8200, 8201, 8202,
                        8232, 8233, 8239, 8287, 12288})"

definition strip :: "pystr \<Rightarrow> pystr" where
  "strip s = rev (dropWhile isspace (rev (dropWhile isspace s)))"

text \<open>\<open>s.split('\n')\<close>: never empty; \<open>''.split('\n')\<close> is \<open>['']\<close>.\<close>

fun split_nl :: "pystr \<Rightarrow> pystr list" where
  "split_nl [] = [[]]"
| "split_nl (c # s) =
     (if c = 10 then [] # split_nl s
      else (case split_nl s of [] \<Rightarrow> [[c]] | l # ls \<Rightarrow> (c # l) # ls))"

text \<open>\<open>s.startswith(p)\<close> and \<open>sub in s\<close>.\<close>

fun startswith :: "pystr \<Rightarrow> pystr \<Rightarrow> bool" where
  "startswith s [] = True"
| "startswith [] (p # ps) = False"
| "startswith (c # s) (p # ps) = (c = p \<and> startswith s ps)"

fun contains :: "pystr \<Rightarrow> pystr \<Rightarrow> bool" where
  "contains sub [] = (sub = [])"
| "contains sub (c # s) = (startswith (c # s) sub \<or> contains sub s)"

text \<open>
  \<open>name.rfind('.')\<close>, with \<open>None\<close> for \<open>-1\<close>, and \<open>PurePath.suffix\<close> and \<open>PurePath.stem\<close>
  as pathlib computes them from the name: the suffix starts at the last dot, unless that
  dot is the first or the last character of the name.
\<close>

fun rfind_dot :: "pystr \<Rightarrow> nat option" where
  "rfind_dot [] = None"
| "rfind_dot (c # s) =
     (case rfind_dot s of
        Some i \<Rightarrow> Some (Suc i)
      | None \<Rightarrow> if c = 46 then Some 0 else None)"

definition suffix :: "pystr \<Rightarrow> pystr" where
  "suffix nm = (case rfind_dot nm of
                  Some i \<Rightarrow> if 0 < i \<and> i + 1 < length nm then drop i nm else []
                | None \<Rightarrow> [])"

definition stem :: "pystr \<Rightarrow> pystr" where
  "stem nm = (case rfind_dot nm of
                Some i \<Rightarrow> if 0 < i \<and> i + 1 < length nm then take i nm else nm
              | None \<Rightarrow> nm)"

text \<open>
  Reading a text file translates \<open>\r\n\<close> and a lone \<open>\r\<close> to \<open>\n\<close> (universal
  newlines); writing on POSIX leaves \<open>\n\<close> as it is.
\<close>

fun universal_newlines :: "pystr \<Rightarrow> pystr" where
  "universal_newlines [] = []"
| "universal_newlines [c] = [if c = 13 then 10 else c]"
| "universal_newlines (c # d # s) =
     (if c = 13 \<and> d = 10 then 10 # universal_newlines s
      else if c = 13 then 10 # universal_newlines (d # s)
      else c # universal_newlines (d # s))"

text \<open>
  The logger writes to the console and to the day's log file; the model keeps what was
  logged, with its level, in the order of the calls. Together with the agent invocations,
  the dashboard writes and the sleeps, the log makes up the trace of a run.
\<close>

datatype level = DEBUG | INFO | WARNING | ERROR

datatype effect =
    Log level pystr
  | Run_agent "pystr list" pystr nat
  | Write_dashboard pystr
  | Sleep nat

text \<open>
  The exceptions the code distinguishes: \<open>subprocess.TimeoutExpired\<close>,
  \<open>FileNotFoundError\<close>, and any other \<open>Exception\<close>, which carries its message.
\<close>

datatype exc = TimeoutExpired | FileNotFoundError | OtherError pystr

section \<open>The vault on disk\<close>

text \<open>
  A directory entry has a name and a modification time (\<open>st_mtime\<close>; a float in Python,
  here any integer scale of it, since the code only compares them). A folder is
  missing, or lists its entries in the order \<open>iterdir()\<close> yields them, or exists and
  cannot be listed: \<open>iterdir()\<close> raises an \<open>OSError\<close>, whose message the folder carries.
\<close>

record entry =
  name :: pystr
  mtime :: int

datatype folder = Missing | Entries "entry list" | Unreadable pystr

record vault =
  needs_action :: folder
  plans :: folder
  pending_approval :: folder
  approved :: folder
  done_folder :: folder
  dashboard :: "pystr option"

text \<open>
  What the process sees and changes outside its own objects: its working directory,
  the date of \<open>datetime.now()\<close> (as \<open>%Y-%m-%d\<close>), the vault's files, and the trace of
  its effects.
\<close>

record world =
  cwd :: pystr
  today :: pystr
  files :: vault
  trace :: "effect list"

definition log :: "level \<Rightarrow> pystr \<Rightarrow> world \<Rightarrow> world" where
  "log l m w = w\<lparr>trace := trace w @ [Log l m]\<rparr>"

definition sleep :: "nat \<Rightarrow> world \<Rightarrow> world" where
  "sleep n w = w\<lparr>trace := trace w @ [Sleep n]\<rparr>"

section \<open>The external agent\<close>

text \<open>
  The result of \<open>subprocess.run\<close> when the process ran to its end: exit code and the
  captured output.
\<close>

record completed =
  returncode :: int
  stdout :: pystr
  stderr :: pystr

text \<open>
  One invocation of the agent executable: it is not on the path, or it cannot be started
  for another reason, or it runs for some seconds and ends with a result. The agent is
  given the command line and the vault, and may change the vault's files.
\<close>

datatype behaviour = Not_installed | Cannot_start pystr | Runs nat completed

type_synonym agent = "pystr list \<Rightarrow> vault \<Rightarrow> behaviour \<times> vault"

text \<open>
  \<open>subprocess.run(cmd, capture_output=True, text=True, timeout=t)\<close>: raises
  \<open>FileNotFoundError\<close> when the executable is missing, \<open>TimeoutExpired\<close> (after
  killing the child) when the child has not ended after \<open>t\<close> seconds, and returns the
  completed process otherwise. The child cannot change the parent's working directory.
\<close>

definition subprocess_run :: "agent \<Rightarrow> pystr list \<Rightarrow> nat \<Rightarrow> world \<Rightarrow> (exc + completed) \<times> world" where
  "subprocess_run ag cmd t w =
     (let w1 = w\<lparr>trace := trace w @ [Run_agent cmd (cwd w) t]\<rparr> in
      case ag cmd (files w) of
        (Not_installed, v) \<Rightarrow> (Inl FileNotFoundError, w1)
      | (Cannot_start m, v) \<Rightarrow> (Inl (OtherError m), w1)
      | (Runs d r, v) \<Rightarrow>
          if t < d then (Inl TimeoutExpired, w1\<lparr>files := v\<rparr>) else (Inr r, w1\<lparr>files := v\<rparr>))"

section \<open>The orchestrator\<close>

text \<open>
  The fields of \<open>Orchestrator\<close> that its methods read or write. \<open>processed_files\<close> holds
  the paths of \<open>Needs_Action\<close> already dispatched; all of them lie in that one folder, so
  a path is identified by its name.
\<close>

record orchestrator =
  vault_path :: pystr
  check_interval :: nat
  processed_files :: "pystr set"

definition get_system_prompt :: pystr where
  "get_system_prompt = join nl
     [[],
      u ''You are an AI Employee assistant. Your task is to:'',
      [],
      u ''1. Read all files in /Needs_Action folder'',
      u ''2. Process each item according to the Company Handbook rules'',
      u ''3. Create action plans in /Plans folder for multi-step tasks'',
      u ''4. Move completed items to /Done folder'',
      u ''5. Create approval requests in /Pending_Approval for sensitive actions'',
      u ''6. Update Dashboard.md with current status'',
      [],
      u ''Always follow the Rules of Engagement in Company_Handbook.md.'',
      u ''Be proactive but cautious. When in doubt, request approval.'',
      []]"

text \<open>
  \<open>trigger_qwen\<close>: the working directory is saved and set to the vault, the agent is run
  with the command line \<open>qwen_cmd\<close> (the system prompt put before the prompt, and the
  flag \<open>-y\<close>) and a timeout of 300 seconds. \<open>os.chdir(original_dir)\<close> is the statement after \<open>subprocess.run\<close> inside the
  \<open>try\<close>; the three \<open>except\<close> branches log and return \<open>False\<close>.
\<close>

definition qwen_cmd :: "pystr \<Rightarrow> pystr list" where
  "qwen_cmd prompt = [u ''qwen'', u ''-p'', get_system_prompt @ nl @ nl @ prompt @ nl, u ''-y'']"

definition trigger_qwen :: "agent \<Rightarrow> pystr \<Rightarrow> orchestrator \<Rightarrow> world \<Rightarrow> bool \<times> world" where
  "trigger_qwen ag prompt self w =
     (let w1 = log INFO (u ''Triggering Qwen Code...'') w;
          original_dir = cwd w1;
          w2 = w1\<lparr>cwd := vault_path self\<rparr>
      in case subprocess_run ag (qwen_cmd prompt) 300 w2 of
           (Inr result, w3) \<Rightarrow>
             let w4 = w3\<lparr>cwd := original_dir\<rparr>;
                 w5 = (if stdout result \<noteq> []
                       then log INFO (u ''Qwen output: '' @ take 500 (stdout result) @ u ''...'') w4
                       else w4);
                 w6 = (if stderr result \<noteq> []
                       then log WARNING (u ''Qwen errors: '' @ take 500 (stderr result) @ u ''...'') w5
                       else w5)
             in (returncode result = 0, w6)
         | (Inl TimeoutExpired, w3) \<Rightarrow>
             (False, log ERROR (u ''Qwen Code timed out after 5 minutes'') w3)
         | (Inl FileNotFoundError, w3) \<Rightarrow>
             (False, log ERROR (u ''Qwen Code not found. Is it installed?'') w3)
         | (Inl (OtherError m), w3) \<Rightarrow>
             (False, log ERROR (u ''Error triggering Qwen: '' @ m) w3))"

subsection \<open>Counting and collecting\<close>

text \<open>
  The methods that list a folder return the \<open>OSError\<close>'s message on the left when
  \<open>iterdir()\<close> raises. \<open>count_files\<close> counts the entries with suffix \<open>.md\<close> whose name
  does not start with a dot.
\<close>

definition count_files :: "folder \<Rightarrow> pystr + nat" where
  "count_files f =
     (case f of
        Missing \<Rightarrow> Inr 0
      | Entries es \<Rightarrow>
          Inr (length (filter (\<lambda>e. suffix (name e) = u ''.md'' \<and> \<not> startswith (name e) (u ''.'')) es))
      | Unreadable m \<Rightarrow> Inl m)"

text \<open>
  \<open>get_pending_items\<close>: the \<open>.md\<close> entries of \<open>Needs_Action\<close> not in \<open>processed_files\<close>,
  sorted by modification time (\<open>sorted\<close> is stable, as \<open>sort_key\<close> is).
\<close>

definition get_pending_items :: "orchestrator \<Rightarrow> world \<Rightarrow> pystr + entry list" where
  "get_pending_items self w =
     (case needs_action (files w) of
        Missing \<Rightarrow> Inr []
      | Entries es \<Rightarrow>
          Inr (sort_key mtime
                 (filter (\<lambda>f. suffix (name f) = u ''.md'' \<and> name f \<notin> processed_files self) es))
      | Unreadable m \<Rightarrow> Inl m)"

subsection \<open>The dashboard\<close>

definition stats_header :: pystr where
  "stats_header = u ''## '' @ [128202] @ u '' Quick Stats''"

definition pending_status :: "nat \<Rightarrow> pystr" where
  "pending_status n =
     (if n = 0 then [9989] @ u '' Clear'' else [9888, 65039] @ u '' '' @ show_nat n @ u '' item(s)'')"

definition approval_status :: "nat \<Rightarrow> pystr" where
  "approval_status n =
     (if n = 0 then [9989] @ u '' Clear'' else [9203] @ u '' '' @ show_nat n @ u '' awaiting'')"

definition today_status :: "nat \<Rightarrow> pystr" where
  "today_status n =
     (if 0 < n then [128200] @ u '' '' @ show_nat n @ u '' done'' else [128202] @ u '' No activity'')"

definition stats_lines :: "nat \<Rightarrow> nat \<Rightarrow> nat \<Rightarrow> pystr list" where
  "stats_lines pending_count approval_count done_today =
     [stats_header,
      [],
      u ''| Metric | Value | Status |'',
      u ''|--------|-------|--------|'',
      u ''| Pending Tasks | '' @ show_nat pending_count @ u '' | ''
        @ pending_status pending_count @ u '' |'',
      u ''| Awaiting Approval | '' @ show_nat approval_count @ u '' | ''
        @ approval_status approval_count @ u '' |'',
      u ''| Tasks Completed Today | '' @ show_nat done_today @ u '' | ''
        @ today_status done_today @ u '' |'',
      [],
      u ''---'']"

text \<open>
  The loop over the lines of the document, with its three variables \<open>in_stats\<close>,
  \<open>stats_replaced\<close> and \<open>new_lines\<close>; it returns the last two.
\<close>

fun replace_stats :: "pystr list \<Rightarrow> pystr list \<Rightarrow> bool \<Rightarrow> bool \<Rightarrow> pystr list \<Rightarrow> bool \<times> pystr list" where
  "replace_stats stats [] in_stats stats_replaced new_lines = (stats_replaced, new_lines)"
| "replace_stats stats (line # lines) in_stats stats_replaced new_lines =
     (if strip line = stats_header
      then replace_stats stats lines True stats_replaced new_lines
      else if in_stats \<and> strip line = u ''---'' \<and> stats_replaced = False
      then replace_stats stats lines False True (new_lines @ stats)
      else if \<not> in_stats
      then replace_stats stats lines in_stats stats_replaced (new_lines @ [line])
      else replace_stats stats lines in_stats stats_replaced new_lines)"

text \<open>
  The second loop, run when nothing was replaced: the statistics go after the first
  line \<open>---\<close> whose index is greater than 5, and the loop ends there. \<open>i\<close> is the index
  of the head of the list in \<open>new_lines\<close>.
\<close>

fun insert_stats :: "pystr list \<Rightarrow> nat \<Rightarrow> pystr list \<Rightarrow> pystr list" where
  "insert_stats stats i [] = []"
| "insert_stats stats i (line # lines) =
     (if strip line = u ''---'' \<and> 5 < i then line # stats @ lines
      else line # insert_stats stats (Suc i) lines)"

definition render_dashboard :: "pystr list \<Rightarrow> pystr \<Rightarrow> pystr" where
  "render_dashboard stats content =
     (case replace_stats stats (split_nl content) False False [] of
        (stats_replaced, new_lines) \<Rightarrow>
          join nl (if \<not> stats_replaced then insert_stats stats 0 new_lines else new_lines))"

definition count_done_today :: "pystr \<Rightarrow> folder \<Rightarrow> pystr + nat" where
  "count_done_today day f =
     (case f of
        Missing \<Rightarrow> Inr 0
      | Entries es \<Rightarrow> Inr (length (filter (\<lambda>e. contains day (name e)) es))
      | Unreadable m \<Rightarrow> Inl m)"

text \<open>
  The counts of \<open>update_dashboard\<close>, in the order the code takes them; the first
  exception ends the \<open>try\<close> block.
\<close>

definition dashboard_counts :: "world \<Rightarrow> pystr + (nat \<times> nat \<times> nat)" where
  "dashboard_counts w =
     (case count_files (needs_action (files w)) of Inl m \<Rightarrow> Inl m | Inr pending_count \<Rightarrow>
      case count_files (plans (files w)) of Inl m \<Rightarrow> Inl m | Inr plans_count \<Rightarrow>
      case count_files (pending_approval (files w)) of Inl m \<Rightarrow> Inl m | Inr approval_count \<Rightarrow>
      case count_done_today (today w) (done_folder (files w)) of Inl m \<Rightarrow> Inl m | Inr done_today \<Rightarrow>
        Inr (pending_count, approval_count, done_today))"

definition write_dashboard :: "pystr \<Rightarrow> world \<Rightarrow> world" where
  "write_dashboard text w =
     w\<lparr>files := (files w)\<lparr>dashboard := Some text\<rparr>, trace := trace w @ [Write_dashboard text]\<rparr>"

definition update_dashboard :: "orchestrator \<Rightarrow> world \<Rightarrow> world" where
  "update_dashboard self w =
     (case dashboard (files w) of
        None \<Rightarrow> log WARNING (u ''Dashboard.md not found'') w
      | Some raw \<Rightarrow>
          (case dashboard_counts w of
             Inl m \<Rightarrow> log ERROR (u ''Could not update dashboard: '' @ m) w
           | Inr (pending_count, approval_count, done_today) \<Rightarrow>
               log DEBUG (u ''Dashboard updated'')
                 (write_dashboard
                    (render_dashboard (stats_lines pending_count approval_count done_today)
                       (universal_newlines raw)) w)))"

subsection \<open>Dispatching the pending items\<close>

definition pending_prompt :: "entry list \<Rightarrow> pystr" where
  "pending_prompt pending = join nl
     [[],
      u ''I have '' @ show_nat (length pending) @ u '' new item(s) to process in /Needs_Action:'',
      [],
      join nl (map (\<lambda>f. u ''- '' @ name f) pending),
      [],
      u ''Please:'',
      u ''1. Read each file carefully'',
      u ''2. Determine the appropriate action based on Company_Handbook.md'',
      u ''3. Create a plan in /Plans if multiple steps are needed'',
      u ''4. Execute simple tasks directly'',
      u ''5. Create approval requests in /Pending_Approval for sensitive actions'',
      u ''6. Move completed items to /Done'',
      u ''7. Update Dashboard.md'',
      [],
      u ''Start processing now.'',
      []]"

definition process_pending_items ::
  "agent \<Rightarrow> orchestrator \<Rightarrow> world \<Rightarrow> (pystr + unit) \<times> orchestrator \<times> world" where
  "process_pending_items ag self w =
     (case get_pending_items self w of
        Inl m \<Rightarrow> (Inl m, self, w)
      | Inr pending \<Rightarrow>
          if pending = [] then (Inr (), self, log DEBUG (u ''No pending items to process'') w)
          else
            let w1 = log INFO (u ''Found '' @ show_nat (length pending) @ u '' pending item(s)'') w
            in case trigger_qwen ag (pending_prompt pending) self w1 of
                 (success, w2) \<Rightarrow>
                   if success
                   then (Inr (),
                         self\<lparr>processed_files := processed_files self \<union> set (map name pending)\<rparr>,
                         log INFO (u ''Processed '' @ show_nat (length pending) @ u '' item(s)'') w2)
                   else (Inr (), self,
                         log WARNING (u ''Qwen processing failed - items remain pending'') w2))"

definition check_approvals :: "world \<Rightarrow> (pystr + unit) \<times> world" where
  "check_approvals w =
     (case approved (files w) of
        Missing \<Rightarrow> (Inr (), w)
      | Entries es \<Rightarrow>
          (Inr (),
           fold (\<lambda>item. log INFO (u ''Approved item ready: '' @ name item))
             (filter (\<lambda>f. suffix (name f) = u ''.md'') es) w)
      | Unreadable m \<Rightarrow> (Inl m, w))"

subsection \<open>The cycle\<close>

text \<open>
  The body of the \<open>while True\<close> loop of \<open>run\<close>, with its \<open>except Exception\<close> handler:
  an exception of a step skips the rest of the cycle, is logged, and the loop sleeps
  10 seconds instead of the configured interval.
\<close>

definition run_cycle :: "agent \<Rightarrow> orchestrator \<Rightarrow> world \<Rightarrow> orchestrator \<times> world" where
  "run_cycle ag self w =
     (case process_pending_items ag self (update_dashboard self w) of
        (Inl m, self2, w2) \<Rightarrow>
          (self2, sleep 10 (log ERROR (u ''Error in orchestration cycle: '' @ m) w2))
      | (Inr _, self2, w2) \<Rightarrow>
          (case check_approvals w2 of
             (Inl m, w3) \<Rightarrow>
               (self2, sleep 10 (log ERROR (u ''Error in orchestration cycle: '' @ m) w3))
           | (Inr _, w3) \<Rightarrow> (self2, sleep (check_interval self2) w3)))"



text \<open>\<open>run_once\<close> has no handler: an exception of a step leaves it at once.\<close>

definition run_once :: "agent \<Rightarrow> orchestrator \<Rightarrow> world \<Rightarrow> (pystr + unit) \<times> orchestrator \<times> world" where
  "run_once ag self w =
     (case process_pending_items ag self (update_dashboard self w) of
        (Inl m, self2, w2) \<Rightarrow> (Inl m, self2, w2)
      | (Inr _, self2, w2) \<Rightarrow>
          (case check_approvals w2 of
             (Inl m, w3) \<Rightarrow> (Inl m, self2, w3)
           | (Inr _, w3) \<Rightarrow> (Inr (), self2, update_dashboard self2 w3)))"

subsection \<open>The steps of a cycle, read off the trace\<close>

text \<open>
  The steps the specification names, as they show in the trace: a write of the
  dashboard, an invocation of the agent, a log line for an approved item, a sleep.
\<close>

datatype step = Refresh | Dispatch | Approved_logged | Slept nat

fun step_of :: "effect \<Rightarrow> step list" where
  "step_of (Write_dashboard text) = [Refresh]"
| "step_of (Run_agent cmd dir t) = [Dispatch]"
| "step_of (Sleep n) = [Slept n]"
| "step_of (Log l m) = (if l = INFO \<and> startswith m (u ''Approved item ready: '') then [Approved_logged] else [])"

definition steps :: "effect list \<Rightarrow> step list" where
  "steps t = concat (map step_of t)"

section \<open>The watchers\<close>

subsection \<open>What a watcher sees on disk\<close>

text \<open>
  An entry of the drop folder: its name, whether it is a regular file, and its bytes, or
  the message of the \<open>OSError\<close> that reading it raises. The content of an action file is
  the template of \<open>create_action_file\<close> filled with six values; the model keeps the
  values (\<open>size_human\<close> is computed from the size).
\<close>

type_synonym bytes = "nat list"

record drop_entry =
  fname :: pystr
  is_file :: bool
  content :: "pystr + bytes"

record action_file =
  af_source :: pystr
  af_destination :: pystr
  af_file_type :: pystr
  af_size :: nat
  af_received :: pystr
  af_hash :: pystr

text \<open>
  The files a watcher works on: the state file \<open>.watcher_state.json\<close> (its text, if it
  exists), the drop folder (\<open>None\<close> when missing) in \<open>iterdir()\<close> order, the folder
  \<open>Files\<close> and the folder \<open>Needs_Action\<close> by file name. Writing the state file or an
  action file may fail with an \<open>OSError\<close>, whose message the disk then carries. The log
  of the watcher is kept with the disk.
\<close>

record disk =
  state_file :: "pystr option"
  state_file_error :: "pystr option"
  drop_folder :: "drop_entry list option"
  vault_files :: "pystr \<rightharpoonup> bytes"
  action_files :: "pystr \<rightharpoonup> action_file"
  needs_action_error :: "pystr option"
  wlog :: "effect list"

definition wlog_add :: "level \<Rightarrow> pystr \<Rightarrow> disk \<Rightarrow> disk" where
  "wlog_add l m d = d\<lparr>wlog := wlog d @ [Log l m]\<rparr>"

text \<open>
  The fields of a watcher object: the vault path, \<open>processed_ids\<close> of \<open>BaseWatcher\<close> and
  \<open>processed_hashes\<close> of \<open>FileSystemWatcher\<close>. The type of the ids is left open.
\<close>

record 'a watcher =
  root :: pystr
  processed_ids :: "'a set"
  processed_hashes :: "pystr set"

subsection \<open>The state file\<close>

text \<open>
  \<open>json.dump({'processed_ids': ids_list}, f)\<close> with the default separators; \<open>enc\<close> is the
  JSON text of one id.
\<close>

definition json_dump :: "('a \<Rightarrow> pystr) \<Rightarrow> 'a list \<Rightarrow> pystr" where
  "json_dump enc ids =
     [123, 34] @ u ''processed_ids'' @ [34] @ u '': ['' @ join (u '', '') (map enc ids) @ u '']}''"

text \<open>
  \<open>list(self.processed_ids)[-1000:]\<close>. A Python set has no insertion order: \<open>list\<close>
  enumerates it in the order of its hash table, which is the parameter \<open>list_of\<close>. For a
  list of more than 1000 elements the slice is its last 1000, else the whole list.
\<close>

definition ids_list :: "('a set \<Rightarrow> 'a list) \<Rightarrow> 'a watcher \<Rightarrow> 'a list" where
  "ids_list list_of self =
     (let l = list_of (processed_ids self) in drop (length l - 1000) l)"

text \<open>
  \<open>_save_state\<close>: \<open>open(self.state_file, 'w')\<close> truncates the file in place, then the
  JSON text is written to it; an exception is logged as a warning.
\<close>

definition save_state :: "('a set \<Rightarrow> 'a list) \<Rightarrow> ('a \<Rightarrow> pystr) \<Rightarrow> 'a watcher \<Rightarrow> disk \<Rightarrow> disk" where
  "save_state list_of enc self d =
     (case state_file_error d of
        Some m \<Rightarrow> wlog_add WARNING (u ''Could not save state: '' @ m) d
      | None \<Rightarrow> d\<lparr>state_file := Some (json_dump enc (ids_list list_of self))\<rparr>)"

text \<open>
  The disk when the process is stopped inside \<open>_save_state\<close>, after \<open>open\<close> has
  truncated the file and the first \<open>k\<close> code points of the text have reached it.
\<close>

definition save_state_interrupted ::
  "('a set \<Rightarrow> 'a list) \<Rightarrow> ('a \<Rightarrow> pystr) \<Rightarrow> nat \<Rightarrow> 'a watcher \<Rightarrow> disk \<Rightarrow> disk" where
  "save_state_interrupted list_of enc k self d =
     (case state_file_error d of
        Some m \<Rightarrow> wlog_add WARNING (u ''Could not save state: '' @ m) d
      | None \<Rightarrow> d\<lparr>state_file := Some (take k (json_dump enc (ids_list list_of self)))\<rparr>)"

text \<open>
  \<open>_load_state\<close>: \<open>loads\<close> stands for \<open>json.load\<close> followed by
  \<open>state.get('processed_ids', [])\<close>; it gives the list of ids, or the message of the
  exception.
\<close>

definition load_state :: "(pystr \<Rightarrow> pystr + 'a list) \<Rightarrow> 'a watcher \<Rightarrow> disk \<Rightarrow> 'a watcher \<times> disk" where
  "load_state loads self d =
     (case state_file d of
        None \<Rightarrow> (self, d)
      | Some text \<Rightarrow>
          (case loads text of
             Inr ids \<Rightarrow>
               (self\<lparr>processed_ids := set ids\<rparr>,
                wlog_add INFO (u ''Loaded state: '' @ show_nat (card (set ids)) @ u '' processed IDs'') d)
           | Inl m \<Rightarrow> (self, wlog_add WARNING (u ''Could not load state: '' @ m) d)))"

subsection \<open>The filesystem watcher\<close>

text \<open>
  \<open>FileSystemWatcher.__init__\<close>: the base class starts with an empty \<open>processed_ids\<close>
  and loads the state file; the drop folder is created if missing; \<open>processed_hashes\<close>
  starts empty.
\<close>

definition init_watcher :: "(pystr \<Rightarrow> pystr + 'a list) \<Rightarrow> pystr \<Rightarrow> disk \<Rightarrow> 'a watcher \<times> disk" where
  "init_watcher loads vault d =
     (case load_state loads \<lparr>root = vault, processed_ids = {}, processed_hashes = {}\<rparr> d of
        (self, d1) \<Rightarrow>
          (self\<lparr>processed_hashes := {}\<rparr>,
           wlog_add INFO (u ''Drop folder: '' @ vault @ u ''/Drop'')
             (d1\<lparr>drop_folder := (case drop_folder d1 of None \<Rightarrow> Some [] | Some es \<Rightarrow> Some es)\<rparr>)))"

text \<open>
  \<open>check_for_updates\<close>: one step of the loop over the drop folder, on the list
  \<open>new_files\<close>, the watcher and the disk; \<open>md5\<close> is the hash function.
\<close>

definition check_entry ::
  "(bytes \<Rightarrow> pystr) \<Rightarrow> drop_entry \<Rightarrow> pystr list \<times> 'a watcher \<times> disk \<Rightarrow> pystr list \<times> 'a watcher \<times> disk" where
  "check_entry md5 e st =
     (case st of (new_files, self, d) \<Rightarrow>
        if is_file e \<and> \<not> startswith (fname e) (u ''.'')
        then (case content e of
                Inr b \<Rightarrow>
                  if md5 b \<notin> processed_hashes self
                  then (new_files @ [fname e],
                        self\<lparr>processed_hashes := insert (md5 b) (processed_hashes self)\<rparr>, d)
                  else (new_files, self, d)
              | Inl m \<Rightarrow>
                  (new_files, self,
                   wlog_add WARNING (u ''Could not hash '' @ fname e @ u '': '' @ m) d))
        else (new_files, self, d))"

definition check_for_updates ::
  "(bytes \<Rightarrow> pystr) \<Rightarrow> 'a watcher \<Rightarrow> disk \<Rightarrow> pystr list \<times> 'a watcher \<times> disk" where
  "check_for_updates md5 self d =
     (case drop_folder d of
        None \<Rightarrow> ([], self, d)
      | Some es \<Rightarrow> fold (check_entry md5) es ([], self, d))"

text \<open>\<open>sanitize_filename\<close>: each of the nine invalid characters becomes \<open>_\<close>, in turn.\<close>

definition replace :: "nat \<Rightarrow> nat \<Rightarrow> pystr \<Rightarrow> pystr" where
  "replace old new s = map (\<lambda>c. if c = old then new else c) s"

definition invalid_chars :: pystr where
  "invalid_chars = [60, 62, 58, 34, 47, 92, 124, 63, 42]"

definition sanitize_filename :: "pystr \<Rightarrow> pystr" where
  "sanitize_filename nm = strip (fold (\<lambda>char nm. replace char 95 nm) invalid_chars nm)"

text \<open>
  \<open>suffix.lower()\<close> on the ASCII letters (no other letter lowers to a character of the
  fourteen known suffixes), and the table of file types.
\<close>

definition lower :: "pystr \<Rightarrow> pystr" where
  "lower s = map (\<lambda>c. if 65 \<le> c \<and> c \<le> 90 then c + 32 else c) s"

definition type_mapping :: "(pystr \<times> pystr) list" where
  "type_mapping =
     [(u ''.pdf'', u ''document''), (u ''.doc'', u ''document''), (u ''.docx'', u ''document''),
      (u ''.txt'', u ''document''), (u ''.md'', u ''document''),
      (u ''.xls'', u ''spreadsheet''), (u ''.xlsx'', u ''spreadsheet''), (u ''.csv'', u ''spreadsheet''),
      (u ''.jpg'', u ''image''), (u ''.jpeg'', u ''image''), (u ''.png'', u ''image''), (u ''.gif'', u ''image''),
      (u ''.zip'', u ''archive''), (u ''.rar'', u ''archive'')]"

definition file_type_of :: "pystr \<Rightarrow> pystr" where
  "file_type_of ext = (case map_of type_mapping ext of Some t \<Rightarrow> t | None \<Rightarrow> u ''unknown'')"

text \<open>
  An item of \<open>create_action_file\<close>: the name of the source file, the name of its copy in
  \<open>Files\<close>, and the hash.
\<close>

record item =
  source :: pystr
  destination :: pystr
  hash :: pystr

definition action_file_name :: "pystr \<Rightarrow> pystr \<Rightarrow> pystr" where
  "action_file_name source_name timestamp =
     u ''FILE_'' @ sanitize_filename (stem source_name) @ u ''_'' @ take 10 timestamp @ u ''.md''"

text \<open>
  \<open>create_action_file\<close>, with the timestamp of \<open>get_timestamp()\<close> as an argument.
  \<open>dest_path.stat()\<close> raises when the copy does not exist, \<open>write_text\<close> when the folder
  cannot be written; both are caught, logged, and give \<open>None\<close>. \<open>write_text\<close> replaces
  an existing file of the same name. The hash is added after the write.
\<close>

definition create_action_file ::
  "pystr \<Rightarrow> item \<Rightarrow> 'a watcher \<Rightarrow> disk \<Rightarrow> pystr option \<times> 'a watcher \<times> disk" where
  "create_action_file timestamp it self d =
     (case vault_files d (destination it) of
        None \<Rightarrow>
          (None, self,
           wlog_add ERROR (u ''Could not create action file: [Errno 2] No such file or directory: ''
                           @ root self @ u ''/Files/'' @ destination it) d)
      | Some b \<Rightarrow>
          (case needs_action_error d of
             Some m \<Rightarrow> (None, self, wlog_add ERROR (u ''Could not create action file: '' @ m) d)
           | None \<Rightarrow>
               let action_file = action_file_name (source it) timestamp;
                   text = \<lparr>af_source = source it,
                           af_destination = root self @ u ''/Files/'' @ destination it,
                           af_file_type = file_type_of (lower (suffix (source it))),
                           af_size = length b,
                           af_received = timestamp,
                           af_hash = hash it\<rparr>
               in (Some action_file,
                   self\<lparr>processed_hashes := insert (hash it) (processed_hashes self)\<rparr>,
                   d\<lparr>action_files := (action_files d)(action_file \<mapsto> text)\<rparr>)))"

text \<open>
  \<open>process_file\<close>: hash the source, stop if the hash is known, copy the file to
  \<open>Files\<close>, create the action file (its result is not looked at), remove the source.
  Any exception is logged.
\<close>

definition process_file ::
  "(bytes \<Rightarrow> pystr) \<Rightarrow> pystr \<Rightarrow> pystr \<Rightarrow> 'a watcher \<times> disk \<Rightarrow> 'a watcher \<times> disk" where
  "process_file md5 timestamp source_name st =
     (case st of (self, d) \<Rightarrow>
        (case find (\<lambda>e. fname e = source_name) (case drop_folder d of None \<Rightarrow> [] | Some es \<Rightarrow> es) of
           None \<Rightarrow>
             (self, wlog_add ERROR (u ''Error processing file '' @ source_name
                                     @ u '': [Errno 2] No such file or directory'') d)
         | Some e \<Rightarrow>
             (case (if is_file e then content e else Inl (u ''[Errno 21] Is a directory'')) of
                Inl m \<Rightarrow>
                  (self, wlog_add ERROR (u ''Error processing file '' @ source_name @ u '': '' @ m) d)
              | Inr b \<Rightarrow>
                  if md5 b \<in> processed_hashes self
                  then (self, wlog_add INFO (u ''File already processed: '' @ source_name) d)
                  else
                    let d1 = wlog_add INFO (u ''Copied file to: '' @ root self @ u ''/Files/'' @ source_name)
                               (d\<lparr>vault_files := (vault_files d)(source_name \<mapsto> b)\<rparr>)
                    in case create_action_file timestamp
                              \<lparr>source = source_name, destination = source_name, hash = md5 b\<rparr> self d1 of
                         (res, self2, d2) \<Rightarrow>
                           (self2,
                            wlog_add INFO (u ''Removed from drop folder: '' @ source_name)
                              (d2\<lparr>drop_folder :=
                                    map_option (filter (\<lambda>e. fname e \<noteq> source_name)) (drop_folder d2)\<rparr>)))))"

text \<open>
  The body of the loop of \<open>FileSystemWatcher.run\<close>: the periodic check, the processing
  of what it found, and the save of the state. \<open>on_created\<close> is the handler of the
  file-creation events.
\<close>

definition periodic_check ::
  "(bytes \<Rightarrow> pystr) \<Rightarrow> ('a set \<Rightarrow> 'a list) \<Rightarrow> ('a \<Rightarrow> pystr) \<Rightarrow> pystr \<Rightarrow> 'a watcher \<times> disk \<Rightarrow> 'a watcher \<times> disk" where
  "periodic_check md5 list_of enc timestamp st =
     (case st of (self, d) \<Rightarrow>
        (case check_for_updates md5 self d of
           (items, self1, d1) \<Rightarrow>
             let d2 = (if items \<noteq> []
                       then wlog_add INFO (u ''Periodic check found '' @ show_nat (length items) @ u '' file(s)'') d1
                       else d1)
             in case fold (process_file md5 timestamp) items (self1, d2) of
                  (self3, d3) \<Rightarrow> (self3, save_state list_of enc self3 d3)))"


text \<open>
  A run of the watcher is a sequence of events: a periodic check at some time, a
  creation event for a path at some time, or somebody putting files into the drop
  folder. The loop has no exit of its own; the list holds the events up to the
  interrupt, after which the state is saved once more.
\<close>

datatype fs_event =
    Periodic pystr
  | Created pystr bool pystr
  | Dropped "drop_entry list"



section \<open>Concrete inputs\<close>

text \<open>
  A vault with two pending items, one approved item and a dashboard without a statistics
  section; an orchestrator started in \<open>/home\<close> on the vault \<open>/vault\<close>; and four agents:
  one that exits with code 0 after 5 seconds, one that exits with code 1, one that is
  still running after 301 seconds, and one that is not installed.
\<close>

definition example_vault :: vault where
  "example_vault =
     \<lparr>needs_action = Entries [\<lparr>name = u ''b.md'', mtime = 2\<rparr>, \<lparr>name = u ''a.md'', mtime = 1\<rparr>,
                               \<lparr>name = u ''c.txt'', mtime = 0\<rparr>],
      plans = Missing,
      pending_approval = Entries [],
      approved = Entries [\<lparr>name = u ''ok.md'', mtime = 5\<rparr>],
      done_folder = Entries [\<lparr>name = u ''x_2026-01-02.md'', mtime = 5\<rparr>],
      dashboard = Some (join nl [u ''# Dash'', u ''a'', u ''b'', u ''c'', u ''d'', u ''e'', u ''---'', u ''tail''])\<rparr>"

definition example_world :: world where
  "example_world = \<lparr>cwd = u ''/home'', today = u ''2026-01-02'', files = example_vault, trace = []\<rparr>"

definition example_orchestrator :: orchestrator where
  "example_orchestrator = \<lparr>vault_path = u ''/vault'', check_interval = 60, processed_files = {}\<rparr>"

definition good_agent :: agent where
  "good_agent cmd v = (Runs 5 \<lparr>returncode = 0, stdout = u ''ok'', stderr = []\<rparr>, v)"

definition failing_agent :: agent where
  "failing_agent cmd v = (Runs 5 \<lparr>returncode = 1, stdout = [], stderr = u ''no''\<rparr>, v)"

definition slow_agent :: agent where
  "slow_agent cmd v = (Runs 301 \<lparr>returncode = 0, stdout = [], stderr = []\<rparr>, v)"


text \<open>
  A watcher just started on a vault whose drop folder holds one file, \<open>report.pdf\<close> with
  the three bytes \<open>abc\<close>, and no state file.
\<close>

definition fresh_watcher :: "nat watcher" where
  "fresh_watcher = \<lparr>root = u ''/vault'', processed_ids = {}, processed_hashes = {}\<rparr>"

definition drop_disk :: disk where
  "drop_disk =
     \<lparr>state_file = None, state_file_error = None,
      drop_folder = Some [\<lparr>fname = u ''report.pdf'', is_file = True, content = Inr [97, 98, 99]\<rparr>],
      vault_files = Map.empty, action_files = Map.empty, needs_action_error = None, wlog = []\<rparr>"

text \<open>
  A watcher whose \<open>processed_ids\<close> received the id 1000 first and the ids 0 to 999 after
  it; a watcher with three ids, and a disk whose state file is the complete snapshot of
  the ids 1 and 2; a disk with two copied files of the same stem, and their items.
\<close>

definition full_watcher :: "nat watcher" where
  "full_watcher = \<lparr>root = u ''/vault'', processed_ids = set (1000 # [0..<1000]), processed_hashes = {}\<rparr>"

definition saved_disk :: disk where
  "saved_disk = drop_disk\<lparr>state_file := Some (json_dump show_nat [1, 2])\<rparr>"

definition three_ids_watcher :: "nat watcher" where
  "three_ids_watcher = \<lparr>root = u ''/vault'', processed_ids = {1, 2, 3}, processed_hashes = {}\<rparr>"

definition two_files_disk :: disk where
  "two_files_disk = drop_disk\<lparr>vault_files := [u ''report.pdf'' \<mapsto> [97], u ''report.txt'' \<mapsto> [98]]\<rparr>"

definition pdf_item :: item where
  "pdf_item = \<lparr>source = u ''report.pdf'', destination = u ''report.pdf'', hash = u ''h1''\<rparr>"

definition txt_item :: item where
  "txt_item = \<lparr>source = u ''report.txt'', destination = u ''report.txt'', hash = u ''h2''\<rparr>"

section \<open>Properties of the strings\<close>

lemma strip_id: "s \<noteq> [] \<Longrightarrow> \<not> isspace (hd s) \<Longrightarrow> \<not> isspace (last s) \<Longrightarrow> strip s = s"
proof -
  assume a: "s \<noteq> []" "\<not> isspace (hd s)" "\<not> isspace (last s)"
  have 1: "dropWhile isspace s = s" using a by (cases s) auto
  have 2: "dropWhile isspace (rev s) = rev s" using a by (cases "rev s") (auto simp add: hd_rev)
  show ?thesis by (simp add: strip_def 1 2)
qed

lemma strip_Nil [simp]: "strip [] = []"
  by (simp add: strip_def)

lemma show_nat_digits: "set (show_nat n) \<subseteq> {48..57}"
proof (induction n rule: show_nat.induct)
  case (1 n)
  show ?case
  proof (cases "n < 10")
    case True
    then show ?thesis by (subst show_nat.simps) auto
  next
    case False
    have "n mod 10 < 10" by simp
    then have "48 + n mod 10 \<in> {48..57}" by auto
    with False 1 show ?thesis by (subst show_nat.simps) auto
  qed
qed

lemma show_nat_no_nl [simp]: "10 \<notin> set (show_nat n)" "13 \<notin> set (show_nat n)"
  using show_nat_digits[of n] by auto

lemma split_nl_not_Nil [simp]: "split_nl s \<noteq> []"
  by (induction s) (auto split: list.splits)








section \<open>Properties of the dispatcher\<close>

lemma cwd_log [simp]: "cwd (log l m w) = cwd w"
  by (simp add: log_def)

lemma files_log [simp]: "files (log l m w) = files w"
  by (simp add: log_def)

lemma today_log [simp]: "today (log l m w) = today w"
  by (simp add: log_def)

lemma trace_log [simp]: "trace (log l m w) = trace w @ [Log l m]"
  by (simp add: log_def)

lemma cwd_subprocess_run [simp]: "cwd (snd (subprocess_run ag cmd t w)) = cwd w"
  by (simp add: subprocess_run_def Let_def split: prod.splits behaviour.splits)

text \<open>
  C4. The claim: after \<open>trigger_qwen\<close> returns, the working directory is the one from
  before the call, whatever the outcome. The code restores it by the statement after
  \<open>subprocess.run\<close>, which the three \<open>except\<close> branches skip: with the agent still
  running after 300 seconds, a process started in \<open>/home\<close> is left in \<open>/vault\<close>.
\<close>

theorem trigger_qwen_timeout_leaves_cwd_in_vault:
  "cwd example_world = u ''/home'' \<and>
   cwd (snd (trigger_qwen slow_agent (u ''go'') example_orchestrator example_world)) = u ''/vault''"
  by (simp add: trigger_qwen_def subprocess_run_def slow_agent_def example_world_def
      example_orchestrator_def Let_def)

text \<open>
  The working directory after \<open>trigger_qwen\<close>, for every outcome: the directory from
  before the call when the agent ran to its end, the vault otherwise.
\<close>

lemma cwd_trigger_qwen:
  "cwd (snd (trigger_qwen ag p self w)) =
     (case fst (subprocess_run ag (qwen_cmd p) 300 w) of Inr r \<Rightarrow> cwd w | Inl e \<Rightarrow> vault_path self)"
  by (simp add: trigger_qwen_def subprocess_run_def Let_def
      split: prod.splits behaviour.splits sum.splits exc.splits)



section \<open>Properties of the dashboard update\<close>

subsection \<open>The two loops of the dashboard update\<close>










subsection \<open>The statistics block\<close>

lemma isspace_simps [simp]: "\<not> isspace 35" "\<not> isspace 115" "\<not> isspace 124" "\<not> isspace 45"
  by (simp_all add: isspace_def)

lemma strip_header [simp]: "strip stats_header = stats_header"
  by (rule strip_id) (simp_all add: stats_header_def u_def)

lemma strip_dash [simp]: "strip (u ''---'') = u ''---''"
  by (rule strip_id) (simp_all add: u_def)

lemma dash_not_Nil [simp]: "u ''---'' \<noteq> []" "[] \<noteq> u ''---''"
  by (simp_all add: u_def)

lemma header_not_Nil [simp]: "stats_header \<noteq> []" "[] \<noteq> stats_header"
  by (simp_all add: u_def stats_header_def)




lemma status_clean [simp]:
  "10 \<notin> set (pending_status n)" "13 \<notin> set (pending_status n)"
  "10 \<notin> set (approval_status n)" "13 \<notin> set (approval_status n)"
  "10 \<notin> set (today_status n)" "13 \<notin> set (today_status n)"
  by (simp_all add: pending_status_def approval_status_def today_status_def u_def)







lemma folders_update_dashboard [simp]:
  "needs_action (files (update_dashboard self w)) = needs_action (files w)"
  "plans (files (update_dashboard self w)) = plans (files w)"
  "pending_approval (files (update_dashboard self w)) = pending_approval (files w)"
  "approved (files (update_dashboard self w)) = approved (files w)"
  "done_folder (files (update_dashboard self w)) = done_folder (files w)"
  "today (update_dashboard self w) = today w"
  "cwd (update_dashboard self w) = cwd w"
  by (simp_all add: update_dashboard_def write_dashboard_def split: option.splits sum.splits prod.splits)

lemma dashboard_counts_log [simp]: "dashboard_counts (log l m w) = dashboard_counts w"
  by (simp add: dashboard_counts_def cong: sum.case_cong)

lemma dashboard_counts_update_dashboard [simp]:
  "dashboard_counts (update_dashboard self w) = dashboard_counts w"
  by (simp add: dashboard_counts_def cong: sum.case_cong)

lemma get_pending_items_update_dashboard [simp]:
  "get_pending_items self (update_dashboard self2 w) = get_pending_items self w"
  by (simp add: get_pending_items_def)


section \<open>Properties of the cycle\<close>

subsection \<open>Steps of the trace\<close>

lemma steps_append [simp]: "steps (a @ b) = steps a @ steps b"
  by (simp add: steps_def)

lemma steps_Nil [simp]: "steps [] = []"
  by (simp add: steps_def)

lemma steps_Cons [simp]: "steps (e # t) = step_of e @ steps t"
  by (simp add: steps_def)

lemma step_of_other_logs [simp]:
  "step_of (Log l (u ''Triggering Qwen Code...'')) = []"
  "step_of (Log l (u ''Qwen output: '' @ x)) = []"
  "step_of (Log l (u ''Qwen errors: '' @ x)) = []"
  "step_of (Log l (u ''Qwen Code timed out after 5 minutes'')) = []"
  "step_of (Log l (u ''Qwen Code not found. Is it installed?'')) = []"
  "step_of (Log l (u ''Error triggering Qwen: '' @ x)) = []"
  "step_of (Log l (u ''Dashboard.md not found'')) = []"
  "step_of (Log l (u ''Could not update dashboard: '' @ x)) = []"
  "step_of (Log l (u ''Dashboard updated'')) = []"
  "step_of (Log l (u ''No pending items to process'')) = []"
  "step_of (Log l (u ''Found '' @ x)) = []"
  "step_of (Log l (u ''Processed '' @ x)) = []"
  "step_of (Log l (u ''Qwen processing failed - items remain pending'')) = []"
  "step_of (Log l (u ''Error in orchestration cycle: '' @ x)) = []"
  by (simp_all add: u_def)

lemma step_of_approved_log [simp]:
  "step_of (Log INFO (u ''Approved item ready: '' @ x)) = [Approved_logged]"
  by (simp add: u_def)

declare step_of.simps(4) [simp del]

lemma steps_update_dashboard:
  "steps (trace (update_dashboard self w)) = steps (trace w) \<or>
   steps (trace (update_dashboard self w)) = steps (trace w) @ [Refresh]"
  by (auto simp add: update_dashboard_def write_dashboard_def split: option.splits sum.splits)

lemma steps_update_dashboard_written:
  "dashboard (files w) = Some raw \<Longrightarrow> dashboard_counts w = Inr c \<Longrightarrow>
   steps (trace (update_dashboard self w)) = steps (trace w) @ [Refresh]"
  by (cases c) (simp add: update_dashboard_def write_dashboard_def)

lemma steps_trigger_qwen:
  "steps (trace (snd (trigger_qwen ag p self w))) = steps (trace w) @ [Dispatch]"
  by (cases "ag (qwen_cmd p) (files w)"; cases "fst (ag (qwen_cmd p) (files w))")
     (auto simp add: trigger_qwen_def subprocess_run_def Let_def log_def)

lemma steps_process_pending_items:
  "steps (trace (snd (snd (process_pending_items ag self w)))) =
     steps (trace w) @ (case get_pending_items self w of Inl m \<Rightarrow> [] | Inr pending \<Rightarrow> if pending = [] then [] else [Dispatch])"
proof (cases "get_pending_items self w")
  case (Inl m)
  then show ?thesis by (simp add: process_pending_items_def)
next
  case (Inr pending)
  show ?thesis
  proof (cases "pending = []")
    case True
    with Inr show ?thesis by (simp add: process_pending_items_def)
  next
    case False
    let ?w1 = "log INFO (u ''Found '' @ show_nat (length pending) @ u '' pending item(s)'') w"
    obtain ok w2 where t: "trigger_qwen ag (pending_prompt pending) self ?w1 = (ok, w2)"
      by (cases "trigger_qwen ag (pending_prompt pending) self ?w1") auto
    have "steps (trace w2) = steps (trace w) @ [Dispatch]"
      using steps_trigger_qwen[of ag "pending_prompt pending" self ?w1] by (simp add: t)
    with Inr False t show ?thesis
      by (simp add: process_pending_items_def Let_def)
  qed
qed

lemma steps_fold_log_approved:
  "steps (trace (fold (\<lambda>item. log INFO (u ''Approved item ready: '' @ name item)) es w))
     = steps (trace w) @ replicate (length es) Approved_logged"
proof (induction es arbitrary: w)
  case Nil
  then show ?case by simp
next
  case (Cons e es)
  show ?case
    by (simp add: Cons.IH)
qed

lemma steps_check_approvals:
  "steps (trace (snd (check_approvals w))) =
     steps (trace w) @
     (case approved (files w) of
        Entries es \<Rightarrow> replicate (length (filter (\<lambda>f. suffix (name f) = u ''.md'') es)) Approved_logged
      | Missing \<Rightarrow> [] | Unreadable m \<Rightarrow> [])"
  by (simp add: check_approvals_def steps_fold_log_approved split: folder.splits)

lemma check_interval_process_pending_items [simp]:
  "check_interval (fst (snd (process_pending_items ag self w))) = check_interval self"
  by (simp add: process_pending_items_def Let_def split: sum.splits prod.splits)

lemma trace_trigger_qwen_has_run:
  "Run_agent (qwen_cmd p) (vault_path self) 300 \<in> set (trace (snd (trigger_qwen ag p self w)))"
  by (cases "ag (qwen_cmd p) (files w)"; cases "fst (ag (qwen_cmd p) (files w))")
     (auto simp add: trigger_qwen_def subprocess_run_def Let_def log_def)

lemma get_pending_items_same_folder:
  "needs_action (files (w2::world)) = needs_action (files (w::world)) \<Longrightarrow>
   get_pending_items self w2 = get_pending_items self w"
  by (simp add: get_pending_items_def)

lemma get_pending_items_not_processed:
  "get_pending_items self w = Inr ps \<Longrightarrow> set (map name ps) \<inter> processed_files self = {}"
  by (auto simp add: get_pending_items_def split: folder.splits)

subsection \<open>The manifest\<close>

lemma startswith_iff: "startswith s p \<longleftrightarrow> (\<exists>b. s = p @ b)"
  by (induction s p rule: startswith.induct) auto

lemma contains_iff: "contains sub s \<longleftrightarrow> (\<exists>a b. s = a @ sub @ b)"
proof (induction s)
  case Nil
  then show ?case by auto
next
  case (Cons c s)
  show ?case
  proof
    assume "contains sub (c # s)"
    then consider "startswith (c # s) sub" | "contains sub s" by auto
    then show "\<exists>a b. c # s = a @ sub @ b"
    proof cases
      case 1
      then obtain b where "c # s = sub @ b" using startswith_iff by blast
      then have "c # s = [] @ sub @ b" by simp
      then show ?thesis by blast
    next
      case 2
      then obtain a b where "s = a @ sub @ b" using Cons.IH by blast
      then have "c # s = (c # a) @ sub @ b" by simp
      then show ?thesis by blast
    qed
  next
    assume "\<exists>a b. c # s = a @ sub @ b"
    then obtain a b where ab: "c # s = a @ sub @ b" by blast
    show "contains sub (c # s)"
    proof (cases a)
      case Nil
      with ab have "startswith (c # s) sub" using startswith_iff by auto
      then show ?thesis by simp
    next
      case (Cons x a')
      with ab have "s = a' @ sub @ b" by simp
      then have "contains sub s" using Cons.IH by blast
      then show ?thesis by simp
    qed
  qed
qed

lemma join_nl_line:
  "x \<in> set xs \<Longrightarrow> \<exists>a b. nl @ join nl xs @ nl = a @ (nl @ x @ nl) @ b"
proof (induction xs)
  case Nil
  then show ?case by simp
next
  case (Cons y ys)
  show ?case
  proof (cases ys)
    case Nil
    with Cons.prems have "nl @ join nl (y # ys) @ nl = [] @ (nl @ x @ nl) @ []" by simp
    then show ?thesis by blast
  next
    case (Cons z zs)
    show ?thesis
    proof (cases "x = y")
      case True
      have "nl @ join nl (y # ys) @ nl = [] @ (nl @ x @ nl) @ (join nl ys @ nl)"
        using True Cons by simp
      then show ?thesis by blast
    next
      case False
      with Cons.prems have "x \<in> set ys" by simp
      then obtain a b where "nl @ join nl ys @ nl = a @ (nl @ x @ nl) @ b"
        using Cons.IH by blast
      then have "nl @ join nl (y # ys) @ nl = (nl @ y @ a) @ (nl @ x @ nl) @ b"
        using Cons by simp
      then show ?thesis by blast
    qed
  qed
qed

lemma pending_prompt_lists_batch:
  assumes "f \<in> set pending"
  shows "contains (nl @ u ''- '' @ name f @ nl) (pending_prompt pending)"
proof -
  let ?J = "join nl (map (\<lambda>f. u ''- '' @ name f) pending)"
  have "u ''- '' @ name f \<in> set (map (\<lambda>f. u ''- '' @ name f) pending)"
    using assms by auto
  from join_nl_line[OF this]
  obtain a b where ab: "nl @ ?J @ nl = a @ (nl @ u ''- '' @ name f @ nl) @ b"
    by auto
  obtain P1 P2 where "pending_prompt pending = P1 @ (nl @ ?J @ nl) @ P2"
  proof
    show "pending_prompt pending =
       (nl @ u ''I have '' @ show_nat (length pending) @ u '' new item(s) to process in /Needs_Action:'' @ nl)
       @ (nl @ ?J @ nl)
       @ join nl
          [[],
           u ''Please:'',
           u ''1. Read each file carefully'',
           u ''2. Determine the appropriate action based on Company_Handbook.md'',
           u ''3. Create a plan in /Plans if multiple steps are needed'',
           u ''4. Execute simple tasks directly'',
           u ''5. Create approval requests in /Pending_Approval for sensitive actions'',
           u ''6. Move completed items to /Done'',
           u ''7. Update Dashboard.md'',
           [],
           u ''Start processing now.'',
           []]"
      by (simp add: pending_prompt_def)
  qed
  then have "pending_prompt pending = (P1 @ a) @ (nl @ u ''- '' @ name f @ nl) @ (b @ P2)"
    using ab by simp
  then show ?thesis
    unfolding contains_iff by blast
qed

lemma qwen_cmd_manifest:
  "\<exists>full. qwen_cmd (pending_prompt pending) = [u ''qwen'', u ''-p'', full, u ''-y''] \<and>
          (\<forall>f \<in> set pending. contains (nl @ u ''- '' @ name f @ nl) full)"
proof -
  let ?full = "get_system_prompt @ nl @ nl @ pending_prompt pending @ nl"
  have "\<forall>f \<in> set pending. contains (nl @ u ''- '' @ name f @ nl) ?full"
  proof
    fix f assume "f \<in> set pending"
    then obtain a b where "pending_prompt pending = a @ (nl @ u ''- '' @ name f @ nl) @ b"
      using pending_prompt_lists_batch contains_iff by blast
    then have "?full = (get_system_prompt @ nl @ nl @ a) @ (nl @ u ''- '' @ name f @ nl) @ (b @ nl)"
      by simp
    then show "contains (nl @ u ''- '' @ name f @ nl) ?full"
      unfolding contains_iff by blast
  qed
  then show ?thesis by (simp add: qwen_cmd_def)
qed

text \<open>
  C8. When a cycle dispatches a batch (there are pending items), the agent is invoked
  once, with a manifest that has a line \<open>- name\<close> for every item of the batch. A
  successful dispatch puts every item of the batch into \<open>processed_files\<close>, so that no
  later collection of this run returns any of them; a failed dispatch leaves the
  orchestrator as it was, so that the next cycle, on an unchanged \<open>Needs_Action\<close>,
  collects the same batch and invokes the agent with the same manifest.
\<close>

theorem process_pending_items_marks_batch:
  assumes "get_pending_items self w = Inr pending" and "pending \<noteq> []"
    and "process_pending_items ag self w = (r, self2, w2)"
    and "success = fst (trigger_qwen ag (pending_prompt pending) self
                          (log INFO (u ''Found '' @ show_nat (length pending) @ u '' pending item(s)'') w))"
  shows "Run_agent (qwen_cmd (pending_prompt pending)) (vault_path self) 300 \<in> set (trace w2) \<and>
         steps (trace w2) = steps (trace w) @ [Dispatch] \<and>
         (\<exists>full. qwen_cmd (pending_prompt pending) = [u ''qwen'', u ''-p'', full, u ''-y''] \<and>
                 (\<forall>f \<in> set pending. contains (nl @ u ''- '' @ name f @ nl) full)) \<and>
         (success \<longrightarrow>
            processed_files self2 = processed_files self \<union> set (map name pending) \<and>
            (\<forall>w3 ps. get_pending_items self2 w3 = Inr ps \<longrightarrow> set (map name ps) \<inter> set (map name pending) = {})) \<and>
         (\<not> success \<longrightarrow>
            self2 = self \<and>
            (\<forall>(w3::world) ag3. needs_action (files w3) = needs_action (files w) \<longrightarrow>
               get_pending_items self2 w3 = Inr pending \<and>
               Run_agent (qwen_cmd (pending_prompt pending)) (vault_path self2) 300
                 \<in> set (trace (snd (snd (process_pending_items ag3 self2 w3))))))"
proof -
  let ?w1 = "log INFO (u ''Found '' @ show_nat (length pending) @ u '' pending item(s)'') w"
  obtain ok wt where t: "trigger_qwen ag (pending_prompt pending) self ?w1 = (ok, wt)"
    by (cases "trigger_qwen ag (pending_prompt pending) self ?w1") auto
  have ok: "ok = success" using assms(4) t by simp
  have "Run_agent (qwen_cmd (pending_prompt pending)) (vault_path self) 300 \<in> set (trace wt)"
    using trace_trigger_qwen_has_run[of "pending_prompt pending" self ag ?w1] t by simp
  then have now: "Run_agent (qwen_cmd (pending_prompt pending)) (vault_path self) 300 \<in> set (trace w2)"
    using assms(1-3) t by (auto simp add: process_pending_items_def Let_def split: if_splits)
  have once: "steps (trace w2) = steps (trace w) @ [Dispatch]"
    using steps_process_pending_items[of ag self w] assms(1-3) by simp
  note manifest = qwen_cmd_manifest[of pending]
  have rest: "(success \<longrightarrow>
            processed_files self2 = processed_files self \<union> set (map name pending) \<and>
            (\<forall>w3 ps. get_pending_items self2 w3 = Inr ps \<longrightarrow> set (map name ps) \<inter> set (map name pending) = {})) \<and>
         (\<not> success \<longrightarrow>
            self2 = self \<and>
            (\<forall>(w3::world) ag3. needs_action (files w3) = needs_action (files w) \<longrightarrow>
               get_pending_items self2 w3 = Inr pending \<and>
               Run_agent (qwen_cmd (pending_prompt pending)) (vault_path self2) 300
                 \<in> set (trace (snd (snd (process_pending_items ag3 self2 w3))))))"
  proof (cases success)
    case True
    then have s2: "self2 = self\<lparr>processed_files := processed_files self \<union> set (map name pending)\<rparr>"
      using assms(1-3) t ok by (simp add: process_pending_items_def Let_def)
    have "\<forall>w3 ps. get_pending_items self2 w3 = Inr ps \<longrightarrow> set (map name ps) \<inter> set (map name pending) = {}"
    proof (intro allI impI)
      fix w3 ps assume "get_pending_items self2 w3 = Inr ps"
      then have "set (map name ps) \<inter> processed_files self2 = {}"
        by (rule get_pending_items_not_processed)
      then show "set (map name ps) \<inter> set (map name pending) = {}"
        using s2 by auto
    qed
    with True s2 show ?thesis by simp
  next
    case False
    then have s2: "self2 = self"
      using assms(1-3) t ok by (simp add: process_pending_items_def Let_def)
    have "\<forall>(w3::world) ag3. needs_action (files w3) = needs_action (files w) \<longrightarrow>
               get_pending_items self2 w3 = Inr pending \<and>
               Run_agent (qwen_cmd (pending_prompt pending)) (vault_path self2) 300
                 \<in> set (trace (snd (snd (process_pending_items ag3 self2 w3))))"
    proof (intro allI impI)
      fix w3 :: world and ag3 :: agent
      assume same: "needs_action (files w3) = needs_action (files w)"
      have g: "get_pending_items self2 w3 = Inr pending"
        using get_pending_items_same_folder[OF same, of self] assms(1) s2 by simp
      let ?w4 = "log INFO (u ''Found '' @ show_nat (length pending) @ u '' pending item(s)'') w3"
      obtain ok3 wt3 where t3: "trigger_qwen ag3 (pending_prompt pending) self2 ?w4 = (ok3, wt3)"
        by (cases "trigger_qwen ag3 (pending_prompt pending) self2 ?w4") auto
      have "Run_agent (qwen_cmd (pending_prompt pending)) (vault_path self2) 300 \<in> set (trace wt3)"
        using trace_trigger_qwen_has_run[of "pending_prompt pending" self2 ag3 ?w4] t3 by simp
      then have "Run_agent (qwen_cmd (pending_prompt pending)) (vault_path self2) 300
                 \<in> set (trace (snd (snd (process_pending_items ag3 self2 w3))))"
        using g assms(2) t3 by (simp add: process_pending_items_def Let_def)
      with g show "get_pending_items self2 w3 = Inr pending \<and>
               Run_agent (qwen_cmd (pending_prompt pending)) (vault_path self2) 300
                 \<in> set (trace (snd (snd (process_pending_items ag3 self2 w3))))" by simp
    qed
    with False s2 show ?thesis by simp
  qed
  from now once manifest rest show ?thesis by blast
qed

text \<open>The steps a cycle adds before the approved folder is read, from the world at its start.\<close>

lemma steps_before_approvals:
  "steps (trace (snd (snd (process_pending_items ag self (update_dashboard self w))))) =
     steps (trace w) @
     (case dashboard (files w) of None \<Rightarrow> [] | Some raw \<Rightarrow> (case dashboard_counts w of Inl m \<Rightarrow> [] | Inr c \<Rightarrow> [Refresh])) @
     (case get_pending_items self w of Inl m \<Rightarrow> [] | Inr pending \<Rightarrow> if pending = [] then [] else [Dispatch])"
proof -
  have "steps (trace (update_dashboard self w)) = steps (trace w) @
     (case dashboard (files w) of None \<Rightarrow> [] | Some raw \<Rightarrow> (case dashboard_counts w of Inl m \<Rightarrow> [] | Inr c \<Rightarrow> [Refresh]))"
    by (auto simp add: update_dashboard_def write_dashboard_def split: option.splits sum.splits)
  then show ?thesis
    by (simp add: steps_process_pending_items)
qed

lemma run_cycle_steps:
  "\<exists>a s. steps (trace (snd (run_cycle ag self w))) =
     steps (trace w) @
     (case dashboard (files w) of None \<Rightarrow> [] | Some raw \<Rightarrow> (case dashboard_counts w of Inl m \<Rightarrow> [] | Inr c \<Rightarrow> [Refresh])) @
     (case get_pending_items self w of Inl m \<Rightarrow> [] | Inr pending \<Rightarrow> if pending = [] then [] else [Dispatch]) @
     replicate a Approved_logged @ [Slept s] \<and> s \<in> {check_interval self, 10}"
proof -
  let ?w1 = "update_dashboard self w"
  obtain res self2 w2 where p: "process_pending_items ag self ?w1 = (res, self2, w2)"
    by (cases "process_pending_items ag self ?w1") auto
  have b: "steps (trace w2) = steps (trace w) @
     (case dashboard (files w) of None \<Rightarrow> [] | Some raw \<Rightarrow> (case dashboard_counts w of Inl m \<Rightarrow> [] | Inr c \<Rightarrow> [Refresh])) @
     (case get_pending_items self w of Inl m \<Rightarrow> [] | Inr pending \<Rightarrow> if pending = [] then [] else [Dispatch])"
    using steps_before_approvals[of ag self w] p by simp
  have ci: "check_interval self2 = check_interval self"
    using check_interval_process_pending_items[of ag self ?w1] p by simp
  obtain res3 w3 where c: "check_approvals w2 = (res3, w3)"
    by (cases "check_approvals w2") auto
  obtain a where a: "steps (trace w3) = steps (trace w2) @ replicate a Approved_logged"
    using steps_check_approvals[of w2] c by (cases "approved (files w2)") auto
  show ?thesis
  proof (cases res)
    case (Inl m)
    have "steps (trace (snd (run_cycle ag self w))) = steps (trace w2) @ replicate 0 Approved_logged @ [Slept 10]"
      using p Inl by (simp add: run_cycle_def sleep_def)
    then show ?thesis unfolding b by (intro exI[of _ 0] exI[of _ 10]) simp
  next
    case (Inr x)
    show ?thesis
    proof (cases res3)
      case (Inl m)
      have "steps (trace (snd (run_cycle ag self w))) = steps (trace w2) @ replicate a Approved_logged @ [Slept 10]"
        using p Inr c Inl a by (simp add: run_cycle_def sleep_def)
      then show ?thesis unfolding b by (intro exI[of _ a] exI[of _ 10]) simp
    next
      case (Inr y)
      have "steps (trace (snd (run_cycle ag self w))) = steps (trace w2) @ replicate a Approved_logged @ [Slept (check_interval self)]"
        using p \<open>res = Inr x\<close> c Inr a ci by (simp add: run_cycle_def sleep_def)
      then show ?thesis unfolding b by (intro exI[of _ a] exI[of _ "check_interval self"]) simp
    qed
  qed
qed

lemma run_once_steps:
  "\<exists>a r2. steps (trace (snd (snd (run_once ag self w)))) =
     steps (trace w) @
     (case dashboard (files w) of None \<Rightarrow> [] | Some raw \<Rightarrow> (case dashboard_counts w of Inl m \<Rightarrow> [] | Inr c \<Rightarrow> [Refresh])) @
     (case get_pending_items self w of Inl m \<Rightarrow> [] | Inr pending \<Rightarrow> if pending = [] then [] else [Dispatch]) @
     replicate a Approved_logged @ r2 \<and> r2 \<in> {[], [Refresh]}"
proof -
  let ?w1 = "update_dashboard self w"
  obtain res self2 w2 where p: "process_pending_items ag self ?w1 = (res, self2, w2)"
    by (cases "process_pending_items ag self ?w1") auto
  have b: "steps (trace w2) = steps (trace w) @
     (case dashboard (files w) of None \<Rightarrow> [] | Some raw \<Rightarrow> (case dashboard_counts w of Inl m \<Rightarrow> [] | Inr c \<Rightarrow> [Refresh])) @
     (case get_pending_items self w of Inl m \<Rightarrow> [] | Inr pending \<Rightarrow> if pending = [] then [] else [Dispatch])"
    using steps_before_approvals[of ag self w] p by simp
  obtain res3 w3 where c: "check_approvals w2 = (res3, w3)"
    by (cases "check_approvals w2") auto
  obtain a where a: "steps (trace w3) = steps (trace w2) @ replicate a Approved_logged"
    using steps_check_approvals[of w2] c by (cases "approved (files w2)") auto
  obtain r2 where r2: "steps (trace (update_dashboard self2 w3)) = steps (trace w3) @ r2" "r2 \<in> {[], [Refresh]}"
    using steps_update_dashboard[of self2 w3] by auto
  show ?thesis
  proof (cases res)
    case (Inl m)
    have "steps (trace (snd (snd (run_once ag self w)))) = steps (trace w2) @ replicate 0 Approved_logged @ []"
      using p Inl by (simp add: run_once_def)
    then show ?thesis unfolding b by (intro exI[of _ 0] exI[of _ "[]"]) simp
  next
    case (Inr x)
    show ?thesis
    proof (cases res3)
      case (Inl m)
      have "steps (trace (snd (snd (run_once ag self w)))) = steps (trace w2) @ replicate a Approved_logged @ []"
        using p Inr c Inl a by (simp add: run_once_def)
      then show ?thesis unfolding b by (intro exI[of _ a] exI[of _ "[]"]) simp
    next
      case (Inr y)
      have "steps (trace (snd (snd (run_once ag self w)))) = steps (trace w2) @ replicate a Approved_logged @ r2"
        using p \<open>res = Inr x\<close> c Inr a r2 by (simp add: run_once_def)
      then show ?thesis unfolding b using r2(2) by (intro exI[of _ a] exI[of _ r2]) simp
    qed
  qed
qed

subsection \<open>The concrete vault\<close>

lemma suffix_examples [simp]:
  "suffix (u ''b.md'') = u ''.md''" "suffix (u ''a.md'') = u ''.md''"
  "suffix (u ''c.txt'') \<noteq> u ''.md''" "suffix (u ''ok.md'') = u ''.md''"
  by (simp_all add: suffix_def u_def)

lemma example_pending:
  "get_pending_items example_orchestrator example_world
     = Inr [\<lparr>name = u ''a.md'', mtime = 1\<rparr>, \<lparr>name = u ''b.md'', mtime = 2\<rparr>]"
  by (simp add: get_pending_items_def example_world_def example_vault_def example_orchestrator_def)

lemma example_counts: "dashboard_counts example_world = Inr (2, 0, 1)"
  by (simp add: dashboard_counts_def count_files_def count_done_today_def example_world_def
      example_vault_def u_def suffix_def)

lemma trigger_qwen_good_agent:
  "fst (trigger_qwen good_agent p self w) = True"
  "files (snd (trigger_qwen good_agent p self w)) = files w"
  by (simp_all add: trigger_qwen_def subprocess_run_def good_agent_def Let_def)

lemma trigger_qwen_failing_agent: "fst (trigger_qwen failing_agent p self w) = False"
  by (simp add: trigger_qwen_def subprocess_run_def failing_agent_def Let_def)

lemma process_pending_items_good_agent:
  "fst (process_pending_items good_agent self w) = (case get_pending_items self w of Inl m \<Rightarrow> Inl m | Inr ps \<Rightarrow> Inr ())"
  "files (snd (snd (process_pending_items good_agent self w))) = files w"
proof -
  show "fst (process_pending_items good_agent self w) = (case get_pending_items self w of Inl m \<Rightarrow> Inl m | Inr ps \<Rightarrow> Inr ())"
    by (simp add: process_pending_items_def Let_def split: sum.splits prod.splits)
  show "files (snd (snd (process_pending_items good_agent self w))) = files w"
  proof (cases "get_pending_items self w")
    case (Inl m)
    then show ?thesis by (simp add: process_pending_items_def)
  next
    case (Inr ps)
    let ?w1 = "log INFO (u ''Found '' @ show_nat (length ps) @ u '' pending item(s)'') w"
    obtain ok w2 where t: "trigger_qwen good_agent (pending_prompt ps) self ?w1 = (ok, w2)"
      by (cases "trigger_qwen good_agent (pending_prompt ps) self ?w1") auto
    have "files w2 = files w"
      using trigger_qwen_good_agent(2)[of "pending_prompt ps" self ?w1] t by simp
    with Inr t show ?thesis by (simp add: process_pending_items_def Let_def)
  qed
qed

lemma today_trigger_qwen [simp]: "today (snd (trigger_qwen ag p self w)) = today w"
  by (cases "ag (qwen_cmd p) (files w)"; cases "fst (ag (qwen_cmd p) (files w))")
     (auto simp add: trigger_qwen_def subprocess_run_def Let_def log_def)

lemma today_process_pending_items [simp]:
  "today (snd (snd (process_pending_items ag self w))) = today w"
proof (cases "get_pending_items self w")
  case (Inl m)
  then show ?thesis by (simp add: process_pending_items_def)
next
  case (Inr ps)
  let ?w1 = "log INFO (u ''Found '' @ show_nat (length ps) @ u '' pending item(s)'') w"
  obtain ok w2 where t: "trigger_qwen ag (pending_prompt ps) self ?w1 = (ok, w2)"
    by (cases "trigger_qwen ag (pending_prompt ps) self ?w1") auto
  have "today w2 = today w"
    using today_trigger_qwen[of ag "pending_prompt ps" self ?w1] by (simp add: t)
  with Inr t show ?thesis by (simp add: process_pending_items_def Let_def)
qed

lemma fold_log_frame [simp]:
  "files (fold (\<lambda>item. log l (f item)) es w) = files w"
  "today (fold (\<lambda>item. log l (f item)) es w) = today w"
  by (induction es arbitrary: w) simp_all

lemma check_approvals_frame [simp]:
  "files (snd (check_approvals w)) = files w"
  "today (snd (check_approvals w)) = today w"
  by (simp_all add: check_approvals_def split: folder.splits)

lemma dashboard_counts_cong:
  "files w = files w2 \<Longrightarrow> today w = today w2 \<Longrightarrow> dashboard_counts w = dashboard_counts w2"
  by (simp add: dashboard_counts_def cong: sum.case_cong)

text \<open>
  C9, as stated. The claim: every cycle refreshes the dashboard a second time and then
  sleeps. On the concrete vault, with the agent that succeeds, the cycle of the \<open>run\<close>
  loop writes the dashboard once, before the dispatch, and sleeps right after the
  approved folder; \<open>run_once\<close> writes it twice and does not sleep.
\<close>

theorem run_cycle_example_has_one_refresh:
  "steps (trace (snd (run_cycle good_agent example_orchestrator example_world)))
     = [Refresh, Dispatch, Approved_logged, Slept 60] \<and>
   steps (trace (snd (run_cycle good_agent example_orchestrator example_world)))
     \<noteq> [Refresh, Dispatch, Approved_logged, Refresh, Slept 60] \<and>
   steps (trace (snd (snd (run_once good_agent example_orchestrator example_world))))
     = [Refresh, Dispatch, Approved_logged, Refresh]"
proof -
  let ?w1 = "update_dashboard example_orchestrator example_world"
  let ?p = "process_pending_items good_agent example_orchestrator ?w1"
  obtain r self2 w2 where p: "?p = (r, self2, w2)" by (cases ?p) auto
  have r: "r = Inr ()"
    using process_pending_items_good_agent(1)[of example_orchestrator ?w1] p example_pending by simp
  have f2: "files w2 = files ?w1"
    using process_pending_items_good_agent(2)[of example_orchestrator ?w1] p by simp
  have s2: "steps (trace w2) = [Refresh, Dispatch]"
    using steps_before_approvals[of good_agent example_orchestrator example_world] p example_pending example_counts
    by (simp add: example_world_def example_vault_def)
  have "check_interval self2 = check_interval example_orchestrator"
    using check_interval_process_pending_items[of good_agent example_orchestrator ?w1] p by simp
  then have ci: "check_interval self2 = 60"
    by (simp add: example_orchestrator_def)
  have ap: "approved (files w2) = Entries [\<lparr>name = u ''ok.md'', mtime = 5\<rparr>]"
    using f2 by (simp add: example_world_def example_vault_def)
  obtain r3 w3 where c: "check_approvals w2 = (r3, w3)" by (cases "check_approvals w2") auto
  have r3: "r3 = Inr ()" using c ap by (simp add: check_approvals_def)
  have s3: "steps (trace w3) = [Refresh, Dispatch, Approved_logged]"
    using steps_check_approvals[of w2] c ap s2 by simp
  have f3: "files w3 = files ?w1"
    using check_approvals_frame(1)[of w2] c f2 by simp
  have t3: "today w3 = today example_world"
    using check_approvals_frame(2)[of w2] c today_process_pending_items[of good_agent example_orchestrator ?w1] p
    by simp
  have cyc: "steps (trace (snd (run_cycle good_agent example_orchestrator example_world)))
     = [Refresh, Dispatch, Approved_logged, Slept 60]"
    using p r c r3 s3 ci by (simp add: run_cycle_def sleep_def)
  have "dashboard (files ?w1) \<noteq> None"
    using example_counts by (simp add: update_dashboard_def write_dashboard_def example_world_def example_vault_def)
  then obtain raw where raw: "dashboard (files w3) = Some raw" using f3 by auto
  have "dashboard_counts w3 = dashboard_counts ?w1"
    using f3 t3 by (intro dashboard_counts_cong) simp_all
  then have cnt: "dashboard_counts w3 = Inr (2, 0, 1)"
    using example_counts by simp
  have "steps (trace (update_dashboard self2 w3)) = [Refresh, Dispatch, Approved_logged, Refresh]"
    using steps_update_dashboard_written[OF raw cnt, of self2] s3 by simp
  then have once: "steps (trace (snd (snd (run_once good_agent example_orchestrator example_world))))
     = [Refresh, Dispatch, Approved_logged, Refresh]"
    using p r c r3 by (simp add: run_once_def)
  show ?thesis using cyc once by simp
qed

theorem process_pending_items_marks_batch_witness:
  "get_pending_items example_orchestrator example_world
     = Inr [\<lparr>name = u ''a.md'', mtime = 1\<rparr>, \<lparr>name = u ''b.md'', mtime = 2\<rparr>] \<and>
   processed_files (fst (snd (process_pending_items good_agent example_orchestrator example_world)))
     = {u ''a.md'', u ''b.md''} \<and>
   fst (snd (process_pending_items failing_agent example_orchestrator example_world)) = example_orchestrator \<and>
   get_pending_items (fst (snd (process_pending_items failing_agent example_orchestrator example_world))) example_world
     = Inr [\<lparr>name = u ''a.md'', mtime = 1\<rparr>, \<lparr>name = u ''b.md'', mtime = 2\<rparr>] \<and>
   (\<exists>full. Run_agent [u ''qwen'', u ''-p'', full, u ''-y''] (u ''/vault'') 300
              \<in> set (trace (snd (snd (process_pending_items failing_agent example_orchestrator example_world)))) \<and>
           contains (nl @ u ''- a.md'' @ nl) full \<and> contains (nl @ u ''- b.md'' @ nl) full)"
proof -
  let ?pending = "[\<lparr>name = u ''a.md'', mtime = 1\<rparr>, \<lparr>name = u ''b.md'', mtime = 2::int\<rparr>]"
  let ?g = "process_pending_items good_agent example_orchestrator example_world"
  let ?f = "process_pending_items failing_agent example_orchestrator example_world"
  have ne: "?pending \<noteq> []" by simp
  have g: "?g = (fst ?g, fst (snd ?g), snd (snd ?g))" by simp
  have f: "?f = (fst ?f, fst (snd ?f), snd (snd ?f))" by simp
  have "processed_files (fst (snd ?g)) = processed_files example_orchestrator \<union> set (map name ?pending)"
    using process_pending_items_marks_batch[OF example_pending ne g refl]
    by (simp add: trigger_qwen_good_agent(1))
  then have 1: "processed_files (fst (snd ?g)) = {u ''a.md'', u ''b.md''}"
    by (auto simp add: example_orchestrator_def)
  note T = process_pending_items_marks_batch[OF example_pending ne f refl]
  have 2: "fst (snd ?f) = example_orchestrator \<and> get_pending_items (fst (snd ?f)) example_world = Inr ?pending"
    using T by (simp add: trigger_qwen_failing_agent example_pending)
  from T obtain full where full: "qwen_cmd (pending_prompt ?pending) = [u ''qwen'', u ''-p'', full, u ''-y'']"
      "\<forall>f \<in> set ?pending. contains (nl @ u ''- '' @ name f @ nl) full"
    by blast
  from T have "Run_agent (qwen_cmd (pending_prompt ?pending)) (vault_path example_orchestrator) 300
      \<in> set (trace (snd (snd ?f)))" by blast
  then have 3: "Run_agent [u ''qwen'', u ''-p'', full, u ''-y''] (u ''/vault'') 300 \<in> set (trace (snd (snd ?f)))"
    by (simp add: full(1) example_orchestrator_def)
  have 4: "contains (nl @ u ''- a.md'' @ nl) full \<and> contains (nl @ u ''- b.md'' @ nl) full"
    using full(2) by (simp add: u_def)
  from 3 4 have "\<exists>full. Run_agent [u ''qwen'', u ''-p'', full, u ''-y''] (u ''/vault'') 300
              \<in> set (trace (snd (snd ?f))) \<and>
           contains (nl @ u ''- a.md'' @ nl) full \<and> contains (nl @ u ''- b.md'' @ nl) full"
    by blast
  then show ?thesis using example_pending 1 2 by simp
qed

subsection \<open>The order of the steps\<close>

lemma files_trigger_qwen:
  "files (snd (trigger_qwen ag p self w)) =
     (case ag (qwen_cmd p) (files w) of
        (Runs d r, v) \<Rightarrow> v
      | (Not_installed, v) \<Rightarrow> files w
      | (Cannot_start m, v) \<Rightarrow> files w)"
  by (cases "ag (qwen_cmd p) (files w)"; cases "fst (ag (qwen_cmd p) (files w))")
     (auto simp add: trigger_qwen_def subprocess_run_def Let_def log_def)

lemma files_process_pending_items:
  "files (snd (snd (process_pending_items ag self w))) =
     (case get_pending_items self w of
        Inl m \<Rightarrow> files w
      | Inr pending \<Rightarrow>
          if pending = [] then files w
          else (case ag (qwen_cmd (pending_prompt pending)) (files w) of
                  (Runs d r, v) \<Rightarrow> v
                | (Not_installed, v) \<Rightarrow> files w
                | (Cannot_start m, v) \<Rightarrow> files w))"
proof (cases "get_pending_items self w")
  case (Inl m)
  then show ?thesis by (simp add: process_pending_items_def)
next
  case (Inr pending)
  show ?thesis
  proof (cases "pending = []")
    case True
    with Inr show ?thesis by (simp add: process_pending_items_def)
  next
    case False
    let ?w1 = "log INFO (u ''Found '' @ show_nat (length pending) @ u '' pending item(s)'') w"
    obtain ok w2 where t: "trigger_qwen ag (pending_prompt pending) self ?w1 = (ok, w2)"
      by (cases "trigger_qwen ag (pending_prompt pending) self ?w1") auto
    have "files w2 = (case ag (qwen_cmd (pending_prompt pending)) (files w) of
                  (Runs d r, v) \<Rightarrow> v
                | (Not_installed, v) \<Rightarrow> files w
                | (Cannot_start m, v) \<Rightarrow> files w)"
      using files_trigger_qwen[of ag "pending_prompt pending" self ?w1]
      by (simp add: t split: prod.splits behaviour.splits)
    with Inr False t show ?thesis by (simp add: process_pending_items_def Let_def)
  qed
qed

lemma fst_process_pending_items:
  "fst (process_pending_items ag self w) = (case get_pending_items self w of Inl m \<Rightarrow> Inl m | Inr ps \<Rightarrow> Inr ())"
  by (simp add: process_pending_items_def Let_def split: sum.splits prod.splits)

lemma steps_update_dashboard_exact:
  "steps (trace (update_dashboard self w)) = steps (trace w) @
     (case dashboard (files w) of None \<Rightarrow> [] | Some raw \<Rightarrow> (case dashboard_counts w of Inl m \<Rightarrow> [] | Inr c \<Rightarrow> [Refresh]))"
  by (auto simp add: update_dashboard_def write_dashboard_def split: option.splits sum.splits)

lemma fst_check_approvals:
  "fst (check_approvals w) = (case approved (files w) of Unreadable m \<Rightarrow> Inl m | Missing \<Rightarrow> Inr () | Entries es \<Rightarrow> Inr ())"
  by (simp add: check_approvals_def split: folder.splits)

lemma dashboard_counts_check_approvals [simp]:
  "dashboard_counts (snd (check_approvals w)) = dashboard_counts w"
  by (rule dashboard_counts_cong) simp_all

lemma run_cycle_steps_exact:
  "steps (trace (snd (run_cycle ag self w))) =
     steps (trace w) @
     (case dashboard (files w) of None \<Rightarrow> [] | Some raw \<Rightarrow> (case dashboard_counts w of Inl m \<Rightarrow> [] | Inr c \<Rightarrow> [Refresh])) @
     (case get_pending_items self w of
        Inl m \<Rightarrow> [Slept 10]
      | Inr pending \<Rightarrow>
          (if pending = [] then [] else [Dispatch]) @
          (case approved (files (snd (snd (process_pending_items ag self (update_dashboard self w))))) of
             Missing \<Rightarrow> [Slept (check_interval self)]
           | Entries es \<Rightarrow>
               replicate (length (filter (\<lambda>f. suffix (name f) = u ''.md'') es)) Approved_logged
               @ [Slept (check_interval self)]
           | Unreadable m \<Rightarrow> [Slept 10]))"
proof -
  let ?w1 = "update_dashboard self w"
  obtain res self2 w2 where p: "process_pending_items ag self ?w1 = (res, self2, w2)"
    by (cases "process_pending_items ag self ?w1") auto
  have res: "res = (case get_pending_items self w of Inl m \<Rightarrow> Inl m | Inr ps \<Rightarrow> Inr ())"
    using fst_process_pending_items[of ag self ?w1] p by simp
  have b: "steps (trace w2) = steps (trace w) @
     (case dashboard (files w) of None \<Rightarrow> [] | Some raw \<Rightarrow> (case dashboard_counts w of Inl m \<Rightarrow> [] | Inr c \<Rightarrow> [Refresh])) @
     (case get_pending_items self w of Inl m \<Rightarrow> [] | Inr pending \<Rightarrow> if pending = [] then [] else [Dispatch])"
    using steps_before_approvals[of ag self w] p by simp
  have ci: "check_interval self2 = check_interval self"
    using check_interval_process_pending_items[of ag self ?w1] p by simp
  obtain res3 w3 where c: "check_approvals w2 = (res3, w3)"
    by (cases "check_approvals w2") auto
  have res3: "res3 = (case approved (files w2) of Unreadable m \<Rightarrow> Inl m | Missing \<Rightarrow> Inr () | Entries es \<Rightarrow> Inr ())"
    using fst_check_approvals[of w2] c by simp
  have a: "steps (trace w3) = steps (trace w2) @
     (case approved (files w2) of
        Entries es \<Rightarrow> replicate (length (filter (\<lambda>f. suffix (name f) = u ''.md'') es)) Approved_logged
      | Missing \<Rightarrow> [] | Unreadable m \<Rightarrow> [])"
    using steps_check_approvals[of w2] c by simp
  show ?thesis
  proof (cases "get_pending_items self w")
    case (Inl m)
    then show ?thesis using p res b by (simp add: run_cycle_def sleep_def)
  next
    case (Inr pending)
    then have r: "res = Inr ()" using res by simp
    show ?thesis
      using p r c res3 a b ci Inr
      by (cases "approved (files w2)") (simp_all add: run_cycle_def sleep_def)
  qed
qed

lemma run_once_steps_exact:
  "steps (trace (snd (snd (run_once ag self w)))) =
     steps (trace w) @
     (case dashboard (files w) of None \<Rightarrow> [] | Some raw \<Rightarrow> (case dashboard_counts w of Inl m \<Rightarrow> [] | Inr c \<Rightarrow> [Refresh])) @
     (case get_pending_items self w of
        Inl m \<Rightarrow> []
      | Inr pending \<Rightarrow>
          (if pending = [] then [] else [Dispatch]) @
          (let w2 = snd (snd (process_pending_items ag self (update_dashboard self w)));
               second = (case dashboard (files w2) of None \<Rightarrow> []
                         | Some raw \<Rightarrow> (case dashboard_counts w2 of Inl m \<Rightarrow> [] | Inr c \<Rightarrow> [Refresh]))
           in case approved (files w2) of
                Missing \<Rightarrow> second
              | Entries es \<Rightarrow>
                  replicate (length (filter (\<lambda>f. suffix (name f) = u ''.md'') es)) Approved_logged @ second
              | Unreadable m \<Rightarrow> []))"
proof -
  let ?w1 = "update_dashboard self w"
  obtain res self2 w2 where p: "process_pending_items ag self ?w1 = (res, self2, w2)"
    by (cases "process_pending_items ag self ?w1") auto
  have res: "res = (case get_pending_items self w of Inl m \<Rightarrow> Inl m | Inr ps \<Rightarrow> Inr ())"
    using fst_process_pending_items[of ag self ?w1] p by simp
  have b: "steps (trace w2) = steps (trace w) @
     (case dashboard (files w) of None \<Rightarrow> [] | Some raw \<Rightarrow> (case dashboard_counts w of Inl m \<Rightarrow> [] | Inr c \<Rightarrow> [Refresh])) @
     (case get_pending_items self w of Inl m \<Rightarrow> [] | Inr pending \<Rightarrow> if pending = [] then [] else [Dispatch])"
    using steps_before_approvals[of ag self w] p by simp
  obtain res3 w3 where c: "check_approvals w2 = (res3, w3)"
    by (cases "check_approvals w2") auto
  have res3: "res3 = (case approved (files w2) of Unreadable m \<Rightarrow> Inl m | Missing \<Rightarrow> Inr () | Entries es \<Rightarrow> Inr ())"
    using fst_check_approvals[of w2] c by simp
  have a: "steps (trace w3) = steps (trace w2) @
     (case approved (files w2) of
        Entries es \<Rightarrow> replicate (length (filter (\<lambda>f. suffix (name f) = u ''.md'') es)) Approved_logged
      | Missing \<Rightarrow> [] | Unreadable m \<Rightarrow> [])"
    using steps_check_approvals[of w2] c by simp
  have f3: "files w3 = files w2" using check_approvals_frame(1)[of w2] c by simp
  have c3: "dashboard_counts w3 = dashboard_counts w2"
    using dashboard_counts_check_approvals[of w2] c by simp
  have s: "steps (trace (update_dashboard self2 w3)) = steps (trace w3) @
     (case dashboard (files w2) of None \<Rightarrow> [] | Some raw \<Rightarrow> (case dashboard_counts w2 of Inl m \<Rightarrow> [] | Inr c \<Rightarrow> [Refresh]))"
    using steps_update_dashboard_exact[of self2 w3] by (simp add: f3 c3 cong: option.case_cong)
  show ?thesis
  proof (cases "get_pending_items self w")
    case (Inl m)
    then show ?thesis using p res b by (simp add: run_once_def)
  next
    case (Inr pending)
    then have r: "res = Inr ()" using res by simp
    show ?thesis
      using p r c res3 a b s Inr
      by (cases "approved (files w2)") (simp_all add: run_once_def Let_def)
  qed
qed

text \<open>
  C9, amended. A cycle does its steps in one order. First the dashboard refresh: one
  write, when the dashboard exists and the folders can be counted. Then the dispatch of
  the pending batch: one agent invocation, when there are pending items. Then one log
  line for each \<open>.md\<close> entry of the approved folder, as the dispatch left it. The cycle
  of the \<open>run\<close> loop ends there with its sleep for the configured interval, without a
  second refresh; when the pending items or the approved folder cannot be listed, the
  rest of the cycle is skipped and the sleep is 10 seconds. \<open>run_once\<close> ends with a
  second refresh, a write under the same condition on the vault as the dispatch left
  it, and never sleeps; after an exception it does nothing more. The vault after the
  dispatch is the one the agent returned when it ran, and the vault after the first
  refresh otherwise.
\<close>

theorem cycle_order:
  "steps (trace (snd (run_cycle ag self w))) =
     steps (trace w) @
     (case dashboard (files w) of None \<Rightarrow> [] | Some raw \<Rightarrow> (case dashboard_counts w of Inl m \<Rightarrow> [] | Inr c \<Rightarrow> [Refresh])) @
     (case get_pending_items self w of
        Inl m \<Rightarrow> [Slept 10]
      | Inr pending \<Rightarrow>
          (if pending = [] then [] else [Dispatch]) @
          (case approved (files (snd (snd (process_pending_items ag self (update_dashboard self w))))) of
             Missing \<Rightarrow> [Slept (check_interval self)]
           | Entries es \<Rightarrow>
               replicate (length (filter (\<lambda>f. suffix (name f) = u ''.md'') es)) Approved_logged
               @ [Slept (check_interval self)]
           | Unreadable m \<Rightarrow> [Slept 10])) \<and>
   steps (trace (snd (snd (run_once ag self w)))) =
     steps (trace w) @
     (case dashboard (files w) of None \<Rightarrow> [] | Some raw \<Rightarrow> (case dashboard_counts w of Inl m \<Rightarrow> [] | Inr c \<Rightarrow> [Refresh])) @
     (case get_pending_items self w of
        Inl m \<Rightarrow> []
      | Inr pending \<Rightarrow>
          (if pending = [] then [] else [Dispatch]) @
          (let w2 = snd (snd (process_pending_items ag self (update_dashboard self w)));
               second = (case dashboard (files w2) of None \<Rightarrow> []
                         | Some raw \<Rightarrow> (case dashboard_counts w2 of Inl m \<Rightarrow> [] | Inr c \<Rightarrow> [Refresh]))
           in case approved (files w2) of
                Missing \<Rightarrow> second
              | Entries es \<Rightarrow>
                  replicate (length (filter (\<lambda>f. suffix (name f) = u ''.md'') es)) Approved_logged @ second
              | Unreadable m \<Rightarrow> [])) \<and>
   files (snd (snd (process_pending_items ag self (update_dashboard self w)))) =
     (case get_pending_items self w of
        Inl m \<Rightarrow> files (update_dashboard self w)
      | Inr pending \<Rightarrow>
          if pending = [] then files (update_dashboard self w)
          else (case ag (qwen_cmd (pending_prompt pending)) (files (update_dashboard self w)) of
                  (Runs d r, v) \<Rightarrow> v
                | (Not_installed, v) \<Rightarrow> files (update_dashboard self w)
                | (Cannot_start m, v) \<Rightarrow> files (update_dashboard self w))) \<and>
   approved (files (update_dashboard self w)) = approved (files w)"
  using run_cycle_steps_exact[of ag self w] run_once_steps_exact[of ag self w]
    files_process_pending_items[of ag self "update_dashboard self w"]
  by simp

section \<open>Properties of the filesystem watcher\<close>

lemma processed_ids_create_action_file [simp]:
  "processed_ids (fst (snd (create_action_file ts it self d))) = processed_ids self"
  by (simp add: create_action_file_def Let_def split: option.splits)

lemma create_action_file_failure_keeps_hashes:
  "fst (create_action_file ts it self d) = None \<Longrightarrow>
   processed_hashes (fst (snd (create_action_file ts it self d))) = processed_hashes self"
  by (auto simp add: create_action_file_def Let_def split: option.splits)

lemma startswith_report [simp]: "\<not> startswith (u ''report.pdf'') (u ''.'')"
  by (simp add: u_def)

text \<open>
  C1. The claim: \<open>check_for_updates\<close> does not register what it detects, so that an item
  whose action file was not created is returned again. The code adds the hash to
  \<open>processed_hashes\<close> when it detects the file. On the drop folder with \<open>report.pdf\<close>:
  the check returns the file and registers its hash; \<open>process_file\<close>, which the loop
  calls on it next, finds the hash and stops (``already processed''); the cycle creates
  no action file and leaves the file in the drop folder; and the next check does not
  return it.
\<close>

theorem check_for_updates_registers_hash:
  "check_for_updates md5 fresh_watcher drop_disk
     = ([u ''report.pdf''], fresh_watcher\<lparr>processed_hashes := {md5 [97, 98, 99]}\<rparr>, drop_disk) \<and>
   process_file md5 ts (u ''report.pdf'') (fresh_watcher\<lparr>processed_hashes := {md5 [97, 98, 99]}\<rparr>, drop_disk)
     = (fresh_watcher\<lparr>processed_hashes := {md5 [97, 98, 99]}\<rparr>,
        wlog_add INFO (u ''File already processed: report.pdf'') drop_disk) \<and>
   action_files (snd (periodic_check md5 list_of enc ts (fresh_watcher, drop_disk))) = Map.empty \<and>
   drop_folder (snd (periodic_check md5 list_of enc ts (fresh_watcher, drop_disk))) = drop_folder drop_disk \<and>
   fst (check_for_updates md5 (fst (periodic_check md5 list_of enc ts (fresh_watcher, drop_disk)))
          (snd (periodic_check md5 list_of enc ts (fresh_watcher, drop_disk)))) = []"
proof -
  let ?s1 = "fresh_watcher\<lparr>processed_hashes := {md5 [97, 98, 99]}\<rparr>"
  have c: "check_for_updates md5 fresh_watcher drop_disk = ([u ''report.pdf''], ?s1, drop_disk)"
    by (simp add: check_for_updates_def check_entry_def drop_disk_def fresh_watcher_def)
  have p: "process_file md5 ts (u ''report.pdf'') (?s1, d) = (?s1, wlog_add INFO (u ''File already processed: report.pdf'') d)"
    if "drop_folder d = drop_folder drop_disk" for d
    using that by (simp add: process_file_def drop_disk_def fresh_watcher_def u_def)
  have pc: "periodic_check md5 list_of enc ts (fresh_watcher, drop_disk)
     = (?s1, save_state list_of enc ?s1
          (wlog_add INFO (u ''File already processed: report.pdf'')
            (wlog_add INFO (u ''Periodic check found '' @ show_nat 1 @ u '' file(s)'') drop_disk)))"
    by (simp add: periodic_check_def c p wlog_add_def)
  have c2: "fst (check_for_updates md5 ?s1 d) = []" if "drop_folder d = drop_folder drop_disk" for d
    using that by (simp add: check_for_updates_def check_entry_def drop_disk_def fresh_watcher_def)
  have df: "drop_folder (save_state list_of enc s d) = drop_folder d" for s :: "nat watcher" and d
    by (simp add: save_state_def wlog_add_def split: option.splits)
  have af: "action_files (save_state list_of enc s d) = action_files d" for s :: "nat watcher" and d
    by (simp add: save_state_def wlog_add_def split: option.splits)
  show ?thesis
    using c p[of drop_disk] by (simp add: pc df af c2 wlog_add_def) (simp add: drop_disk_def)
qed

text \<open>
  On the path of the creation events nothing is registered before the write. There, when
  the action file cannot be written, the hash stays unregistered as the claim says, but
  \<open>process_file\<close> goes on and removes the source from the drop folder, so the item is
  not seen again either.
\<close>

lemma process_file_failed_write_removes_source:
  "processed_hashes (fst (process_file md5 ts (u ''report.pdf'')
       (fresh_watcher, drop_disk\<lparr>needs_action_error := Some (u ''No space left on device'')\<rparr>))) = {} \<and>
   action_files (snd (process_file md5 ts (u ''report.pdf'')
       (fresh_watcher, drop_disk\<lparr>needs_action_error := Some (u ''No space left on device'')\<rparr>))) = Map.empty \<and>
   drop_folder (snd (process_file md5 ts (u ''report.pdf'')
       (fresh_watcher, drop_disk\<lparr>needs_action_error := Some (u ''No space left on device'')\<rparr>))) = Some []"
  by (simp add: process_file_def create_action_file_def drop_disk_def fresh_watcher_def wlog_add_def Let_def)

subsection \<open>No operation of the filesystem watcher touches processed_ids\<close>











subsection \<open>The state file is written by the save alone\<close>

lemma state_file_wlog_add [simp]: "state_file (wlog_add l m d) = state_file d"
  by (simp add: wlog_add_def)













lemma init_watcher_hashes [simp]: "processed_hashes (fst (init_watcher loads vault d)) = {}"
  by (simp add: init_watcher_def split: prod.splits)


subsection \<open>Nothing but the save writes the state file or changes whether it can be written\<close>

lemma state_file_error_wlog_add [simp]: "state_file_error (wlog_add l m d) = state_file_error d"
  by (simp add: wlog_add_def)







lemma save_state_error [simp]:
  "state_file_error (save_state list_of enc self d) = state_file_error d"
  by (simp add: save_state_def split: option.splits)














subsection \<open>The state file\<close>

lemma ids_list_cap: "length (ids_list list_of self) \<le> 1000"
  by (simp add: ids_list_def Let_def)

lemma save_state_cap:
  "state_file_error d = None \<Longrightarrow>
   \<exists>ids. state_file (save_state list_of enc self d) = Some (json_dump enc ids) \<and> length ids \<le> 1000"
  using ids_list_cap[of list_of self] by (auto simp add: save_state_def)

text \<open>
  C2. The claim: the saved list has at most 1000 ids (\<open>save_state_cap\<close> above), and the
  ids left out are the oldest-inserted. The code slices \<open>list(self.processed_ids)\<close>, and
  a set does not keep the order of insertion. With 1001 small integers CPython
  enumerates the set in increasing order: the id 1000, inserted first, is kept, and the
  id 0, inserted after it, is left out.
\<close>

theorem save_state_keeps_oldest_id:
  "ids_list sorted_list_of_set full_watcher = [1..<1001] \<and>
   0 \<notin> set (ids_list sorted_list_of_set full_watcher) \<and>
   1000 \<in> set (ids_list sorted_list_of_set full_watcher) \<and>
   state_file (save_state sorted_list_of_set show_nat full_watcher drop_disk)
     = Some (json_dump show_nat [1..<1001])"
proof -
  have "set (1000 # [0..<1000]) = {0..<1001::nat}" by auto
  then have "sorted_list_of_set (processed_ids full_watcher) = [0..<1001]"
    by (simp add: full_watcher_def sorted_list_of_set_range del: set_upt)
  then have l: "ids_list sorted_list_of_set full_watcher = [1..<1001]"
    by (simp add: ids_list_def Let_def drop_upt del: upt_Suc)
  have "state_file_error drop_disk = None" by (simp add: drop_disk_def)
  then have "state_file (save_state sorted_list_of_set show_nat full_watcher drop_disk)
     = Some (json_dump show_nat [1..<1001])"
    by (simp add: save_state_def l)
  then show ?thesis unfolding l by simp
qed

lemma json_dump_not_Nil [simp]: "json_dump enc ids \<noteq> []" "[] \<noteq> json_dump enc ids"
  by (simp_all add: json_dump_def)

text \<open>
  C3, as stated. The claim: an interrupted save leaves the previous snapshot or the new
  one. The code opens the state file itself for writing: right after \<open>open\<close> the file
  is empty, which is neither.
\<close>

theorem save_state_interrupted_leaves_empty_file:
  "state_file saved_disk = Some (json_dump show_nat [1, 2]) \<and>
   state_file (save_state_interrupted sorted_list_of_set show_nat 0 three_ids_watcher saved_disk) = Some [] \<and>
   state_file (save_state_interrupted sorted_list_of_set show_nat 0 three_ids_watcher saved_disk)
     \<noteq> state_file saved_disk \<and>
   state_file (save_state_interrupted sorted_list_of_set show_nat 0 three_ids_watcher saved_disk)
     \<noteq> state_file (save_state sorted_list_of_set show_nat three_ids_watcher saved_disk)"
  by (simp add: save_state_interrupted_def save_state_def saved_disk_def drop_disk_def)

text \<open>
  C3, amended. A save that runs to its end leaves the new snapshot in the state file. The
  file is written in place: a save interrupted after \<open>k\<close> code points leaves the first
  \<open>k\<close> code points of the new snapshot, a truncated file whenever \<open>k\<close> is less than its
  length.
\<close>

theorem save_state_writes_in_place:
  assumes "state_file_error d = None"
  shows "state_file (save_state list_of enc self d) = Some (json_dump enc (ids_list list_of self)) \<and>
         state_file (save_state_interrupted list_of enc k self d)
           = Some (take k (json_dump enc (ids_list list_of self))) \<and>
         (k < length (json_dump enc (ids_list list_of self)) \<longrightarrow>
            state_file (save_state_interrupted list_of enc k self d)
              \<noteq> state_file (save_state list_of enc self d)) \<and>
         (length (json_dump enc (ids_list list_of self)) \<le> k \<longrightarrow>
            save_state_interrupted list_of enc k self d = save_state list_of enc self d)"
proof -
  let ?t = "json_dump enc (ids_list list_of self)"
  have "k < length ?t \<Longrightarrow> take k ?t \<noteq> ?t"
    by (metis length_take min.absorb4 nat_neq_iff)
  then show ?thesis
    using assms by (auto simp add: save_state_def save_state_interrupted_def)
qed

theorem save_state_writes_in_place_witness:
  "state_file_error saved_disk = None \<and>
   state_file (save_state_interrupted sorted_list_of_set show_nat 5 three_ids_watcher saved_disk)
     = Some (take 5 (json_dump show_nat (ids_list sorted_list_of_set three_ids_watcher))) \<and>
   state_file (save_state_interrupted sorted_list_of_set show_nat 5 three_ids_watcher saved_disk)
     \<noteq> state_file (save_state sorted_list_of_set show_nat three_ids_watcher saved_disk)"
proof -
  have 1: "state_file_error saved_disk = None" by (simp add: saved_disk_def drop_disk_def)
  have 2: "5 < length (json_dump show_nat (ids_list sorted_list_of_set three_ids_watcher))"
    by (simp add: json_dump_def u_def)
  show ?thesis
    using save_state_writes_in_place[OF 1, of sorted_list_of_set show_nat three_ids_watcher 5] 1 2 by simp
qed

subsection \<open>The name of the action file\<close>

lemma action_file_name_eq_iff:
  assumes "10 \<le> length ts1" and "10 \<le> length ts2"
  shows "action_file_name a ts1 = action_file_name b ts2 \<longleftrightarrow>
         sanitize_filename (stem a) = sanitize_filename (stem b) \<and> take 10 ts1 = take 10 ts2"
proof -
  let ?x = "sanitize_filename (stem a)" and ?y = "sanitize_filename (stem b)"
  let ?p = "u ''_'' @ take 10 ts1 @ u ''.md''" and ?q = "u ''_'' @ take 10 ts2 @ u ''.md''"
  have len: "length ?p = length ?q" using assms by simp
  have "action_file_name a ts1 = action_file_name b ts2 \<longleftrightarrow> ?x @ ?p = ?y @ ?q"
    by (simp add: action_file_name_def)
  also have "\<dots> \<longleftrightarrow> ?x = ?y \<and> ?p = ?q"
    using len by (intro append_eq_append_conv) simp
  also have "\<dots> \<longleftrightarrow> ?x = ?y \<and> take 10 ts1 = take 10 ts2"
    by simp
  finally show ?thesis .
qed

lemma create_action_file_success:
  assumes "vault_files d (destination it) = Some b" and "needs_action_error d = None"
  shows "create_action_file ts it self d =
           (Some (action_file_name (source it) ts),
            self\<lparr>processed_hashes := insert (hash it) (processed_hashes self)\<rparr>,
            d\<lparr>action_files := (action_files d)(action_file_name (source it) ts \<mapsto>
                 \<lparr>af_source = source it,
                  af_destination = root self @ u ''/Files/'' @ destination it,
                  af_file_type = file_type_of (lower (suffix (source it))),
                  af_size = length b,
                  af_received = ts,
                  af_hash = hash it\<rparr>)\<rparr>)"
  using assms by (simp add: create_action_file_def Let_def)

lemma sanitize_report [simp]:
  "sanitize_filename (stem (u ''report.pdf'')) = u ''report''"
  "sanitize_filename (stem (u ''report.txt'')) = u ''report''"
  by (simp_all add: sanitize_filename_def stem_def invalid_chars_def replace_def strip_def isspace_def u_def)

text \<open>
  C6, as stated. The claim: two distinct items of the same day with the same sanitized
  title do not overwrite each other. \<open>report.pdf\<close> and \<open>report.txt\<close>, processed on the
  same day, both get the path \<open>FILE_report_2026-01-02.md\<close>, and after the second call
  the file describes \<open>report.txt\<close>.
\<close>

theorem second_action_file_overwrites_first:
  "fst (create_action_file (u ''2026-01-02T10:00:00'') pdf_item fresh_watcher two_files_disk)
     = Some (u ''FILE_report_2026-01-02.md'') \<and>
   map_option af_source
     (action_files (snd (snd (create_action_file (u ''2026-01-02T10:00:00'') pdf_item fresh_watcher two_files_disk)))
        (u ''FILE_report_2026-01-02.md'')) = Some (u ''report.pdf'') \<and>
   fst (create_action_file (u ''2026-01-02T11:30:00'') txt_item
          (fst (snd (create_action_file (u ''2026-01-02T10:00:00'') pdf_item fresh_watcher two_files_disk)))
          (snd (snd (create_action_file (u ''2026-01-02T10:00:00'') pdf_item fresh_watcher two_files_disk))))
     = Some (u ''FILE_report_2026-01-02.md'') \<and>
   map_option af_source
     (action_files
        (snd (snd (create_action_file (u ''2026-01-02T11:30:00'') txt_item
          (fst (snd (create_action_file (u ''2026-01-02T10:00:00'') pdf_item fresh_watcher two_files_disk)))
          (snd (snd (create_action_file (u ''2026-01-02T10:00:00'') pdf_item fresh_watcher two_files_disk))))))
        (u ''FILE_report_2026-01-02.md'')) = Some (u ''report.txt'')"
proof -
  have n1: "action_file_name (u ''report.pdf'') (u ''2026-01-02T10:00:00'') = u ''FILE_report_2026-01-02.md''"
    by (simp add: action_file_name_def) (simp add: u_def)
  have n2: "action_file_name (u ''report.txt'') (u ''2026-01-02T11:30:00'') = u ''FILE_report_2026-01-02.md''"
    by (simp add: action_file_name_def) (simp add: u_def)
  have v1: "vault_files two_files_disk (destination pdf_item) = Some [97]"
    by (simp add: two_files_disk_def pdf_item_def u_def)
  have e: "needs_action_error two_files_disk = None"
    by (simp add: two_files_disk_def drop_disk_def)
  note c1 = create_action_file_success[OF v1 e, of "u ''2026-01-02T10:00:00''" fresh_watcher]
  let ?d1 = "snd (snd (create_action_file (u ''2026-01-02T10:00:00'') pdf_item fresh_watcher two_files_disk))"
  let ?s1 = "fst (snd (create_action_file (u ''2026-01-02T10:00:00'') pdf_item fresh_watcher two_files_disk))"
  have v2: "vault_files ?d1 (destination txt_item) = Some [98]"
    by (simp add: c1) (simp add: two_files_disk_def txt_item_def u_def)
  have e2: "needs_action_error ?d1 = None"
    by (simp add: c1 e)
  note c2 = create_action_file_success[OF v2 e2, of "u ''2026-01-02T11:30:00''" ?s1]
  have s1: "source pdf_item = u ''report.pdf''" and s2: "source txt_item = u ''report.txt''"
    by (simp_all add: pdf_item_def txt_item_def)
  show ?thesis
    unfolding c2 unfolding c1 by (simp add: s1 s2 n1 n2)
qed

text \<open>
  C6, amended. The path of an action file is \<open>FILE_\<close>, the sanitized stem, \<open>_\<close>, the
  date (the first ten characters of the timestamp) and \<open>.md\<close>. Two items created one
  after the other get the same path exactly when their sanitized stems and their dates
  are equal; then the file holds the second item's content, and the first one's is gone.
  Otherwise the first file is untouched.
\<close>

theorem action_file_path_depends_on_title_and_date:
  assumes "10 \<le> length ts1" and "10 \<le> length ts2"
    and "vault_files d (destination it1) = Some b1" and "vault_files d (destination it2) = Some b2"
    and "needs_action_error d = None"
    and "create_action_file ts1 it1 self d = (r1, self1, d1)"
    and "create_action_file ts2 it2 self1 d1 = (r2, self2, d2)"
  shows "r1 = Some (action_file_name (source it1) ts1) \<and>
         r2 = Some (action_file_name (source it2) ts2) \<and>
         (r1 = r2 \<longleftrightarrow>
            sanitize_filename (stem (source it1)) = sanitize_filename (stem (source it2)) \<and>
            take 10 ts1 = take 10 ts2) \<and>
         map_option (\<lambda>f. (af_source f, af_received f, af_hash f)) (action_files d2 (action_file_name (source it1) ts1))
           = (if r1 = r2 then Some (source it2, ts2, hash it2) else Some (source it1, ts1, hash it1))"
proof -
  note c1 = create_action_file_success[OF assms(3) assms(5), of ts1 self]
  have r1: "r1 = Some (action_file_name (source it1) ts1)" using assms(6) c1 by simp
  have d1v: "vault_files d1 (destination it2) = Some b2" "needs_action_error d1 = None"
    using assms(4,5,6) c1 by auto
  note c2 = create_action_file_success[OF d1v, of ts2 self1]
  have r2: "r2 = Some (action_file_name (source it2) ts2)" using assms(7) c2 by simp
  have iff: "r1 = r2 \<longleftrightarrow>
            sanitize_filename (stem (source it1)) = sanitize_filename (stem (source it2)) \<and>
            take 10 ts1 = take 10 ts2"
    using action_file_name_eq_iff[OF assms(1,2)] r1 r2 by simp
  have "map_option (\<lambda>f. (af_source f, af_received f, af_hash f)) (action_files d2 (action_file_name (source it1) ts1))
           = (if r1 = r2 then Some (source it2, ts2, hash it2) else Some (source it1, ts1, hash it1))"
    using assms(6,7) c1 c2 r1 r2 by auto
  with r1 r2 iff show ?thesis by simp
qed

theorem action_file_path_depends_on_title_and_date_witness:
  "10 \<le> length (u ''2026-01-02T10:00:00'') \<and> 10 \<le> length (u ''2026-01-02T11:30:00'') \<and>
   vault_files two_files_disk (destination pdf_item) = Some [97] \<and>
   vault_files two_files_disk (destination txt_item) = Some [98] \<and>
   needs_action_error two_files_disk = None \<and>
   map_option (\<lambda>f. (af_source f, af_received f, af_hash f))
     (action_files
        (snd (snd (create_action_file (u ''2026-01-02T11:30:00'') txt_item
          (fst (snd (create_action_file (u ''2026-01-02T10:00:00'') pdf_item fresh_watcher two_files_disk)))
          (snd (snd (create_action_file (u ''2026-01-02T10:00:00'') pdf_item fresh_watcher two_files_disk))))))
        (action_file_name (u ''report.pdf'') (u ''2026-01-02T10:00:00'')))
     = Some (u ''report.txt'', u ''2026-01-02T11:30:00'', u ''h2'')"
proof -
  let ?ts1 = "u ''2026-01-02T10:00:00''" and ?ts2 = "u ''2026-01-02T11:30:00''"
  let ?c1 = "create_action_file ?ts1 pdf_item fresh_watcher two_files_disk"
  let ?c2 = "create_action_file ?ts2 txt_item (fst (snd ?c1)) (snd (snd ?c1))"
  have l1: "10 \<le> length ?ts1" and l2: "10 \<le> length ?ts2" by (simp_all add: u_def)
  have v1: "vault_files two_files_disk (destination pdf_item) = Some [97]"
    and v2: "vault_files two_files_disk (destination txt_item) = Some [98]"
    by (simp_all add: two_files_disk_def pdf_item_def txt_item_def u_def)
  have e: "needs_action_error two_files_disk = None"
    by (simp add: two_files_disk_def drop_disk_def)
  have p1: "?c1 = (fst ?c1, fst (snd ?c1), snd (snd ?c1))" by simp
  have p2: "?c2 = (fst ?c2, fst (snd ?c2), snd (snd ?c2))" by simp
  have same: "sanitize_filename (stem (source pdf_item)) = sanitize_filename (stem (source txt_item))
              \<and> take 10 ?ts1 = take 10 ?ts2"
    by (simp add: pdf_item_def txt_item_def) (simp add: u_def)
  have s: "source pdf_item = u ''report.pdf''" "source txt_item = u ''report.txt''" "hash txt_item = u ''h2''"
    by (simp_all add: pdf_item_def txt_item_def)
  note T = action_file_path_depends_on_title_and_date[OF l1 l2 v1 v2 e p1 p2]
  from T same have eq: "fst ?c1 = fst ?c2" by blast
  from T eq have "map_option (\<lambda>f. (af_source f, af_received f, af_hash f))
      (action_files (snd (snd ?c2)) (action_file_name (source pdf_item) ?ts1))
        = Some (source txt_item, ?ts2, hash txt_item)"
    by simp
  then show ?thesis
    using l1 l2 v1 v2 e by (simp add: s)
qed

end
